theory Spec2Isabelle
  imports Complex_Main "HOL-Library.Sublist"
begin

section \<open>Markup translator (flint/interface.py)\<close>

text \<open>
  Strings are lists of \<open>char\<close>, which covers the code points 0 to 255 and with
  them every character of the table below.

  Python's \<^verbatim>\<open>str.replace(old, new)\<close>. For a non-empty \<open>old\<close> the string is scanned from
  the left and every non-overlapping occurrence is replaced. For the empty \<open>old\<close> Python
  inserts \<open>new\<close> before every character and once more at the end.
\<close>

text \<open>
  At a match the scan goes on behind the occurrence: \<open>drop (length old) (c # s)\<close>, which
  is \<open>drop (length old - 1) s\<close> for a non-empty \<open>old\<close>.
\<close>

fun replace_scan :: "string \<Rightarrow> string \<Rightarrow> string \<Rightarrow> string" where
  "replace_scan old new [] = []"
| "replace_scan old new (c # s) =
     (if old \<noteq> [] \<and> prefix old (c # s)
      then new @ replace_scan old new (drop (length old - 1) s)
      else c # replace_scan old new s)"

definition str_replace :: "string \<Rightarrow> string \<Rightarrow> string \<Rightarrow> string" where
  "str_replace s old new =
     (if old = [] then new @ concat (map (\<lambda>c. c # new) s) else replace_scan old new s)"

text \<open>Python's \<^verbatim>\<open>old in s\<close> on strings: \<open>old\<close> occurs in \<open>s\<close> as a contiguous piece.\<close>

fun str_contains :: "string \<Rightarrow> string \<Rightarrow> bool" where
  "str_contains [] old = (old = [])"
| "str_contains (c # s) old = (prefix old (c # s) \<or> str_contains s old)"

text \<open>
  The lookup table \<^verbatim>\<open>RDL_TO_HTML\<close>, in the order of the dict literal (a Python dict
  iterates in insertion order; the keys of the literal are pairwise distinct).
\<close>

definition RDL_TO_HTML :: "(string \<times> string) list" where
  \<open>RDL_TO_HTML =
    [(''<TRA data="1" mask="1" def="-2"/>'', ''<b>''),
     (''<TRA bold="true"/>'', ''<b>''),
     (''<TRA data="0" mask="1" def="-1"/>'', ''</b>''),
     (''<TRA data="0x00000001" mask="-1" def="-2"/>'', ''<b>''),
     (''<TRA data="0x00000000" mask="-1" def="-1"/>'', ''</b>''),
     (''<TRA bold="default"/>'', ''</b>''),
     (''<TRA data="2" mask="3" def="-3"/>'', ''<i>''),
     (''<TRA data="0" mask="3" def="-1"/>'', ''</i>''),
     (''<TRA data="98" mask="-29" def="-3"/>'', ''<i>''),
     (''<TRA data="96" mask="-29" def="-1"/>'', ''</i>''),
     (''<TRA data="2" mask="2" def="-3"/>'', ''<i>''),
     (''<TRA data="0" mask="2" def="-1"/>'', ''</i>''),
     (''<TRA data="5" mask="5" def="-6"/>'', ''<b><u>''),
     (''<TRA data="0" mask="5" def="-1"/>'', ''</b></u>''),
     (''<TRA data="5" mask="7" def="-6"/>'', ''<b><u>''),
     (''<TRA data="0" mask="7" def="-1"/>'', ''</b></u>''),
     (''<TRA color="default" bold="default"/>'', ''</font></b>''),
     (''<TRA data="65280" mask="-32" def="31"/>'', ''<font color="red">''),
     (''<TRA color="#ff0000" bold="true"/>'', ''<font color="red"><b>''),
     (''<TRA data="96" mask="-32" def="-1"/>'', ''</font>''),
     (''<TRA color="default"/>'', ''</font>''),
     (''<TRA data="65281" mask="-31" def="30"/>'', ''<b><font color="red">''),
     (''<TRA data="96" mask="-31" def="-1"/>'', ''</b></font>''),
     (''<TRA data="-16777216" mask="-32" def="31"/>'', ''<font color="blue">''),
     (''<TRA color="white" bold="default"/>'', ''</b><font color="white>''),
     (''<PARA/>'', ''<p>''),
     (''</PARA>'', ''</p>''),
     (''<JUST loc="left"/>'', ''<p align="left">''),
     (''<JUST loc="center"/>'', ''<p align="center">''),
     ([CHR 0xA0], ''&nbsp;''),
     (''<RDL>'', ''''),
     (''</RDL>'', ''''),
     (''<TEXT>'', ''''),
     (''</TEXT>'', ''''),
     (''<PUSH/>'', ''''),
     (''<POP/>'', ''''),
     (''<?xml version="1.0" encoding="UTF-16"?>'', '''')]\<close>

definition rdl_to_html :: "string \<Rightarrow> string" where
  "rdl_to_html rdl =
     foldl (\<lambda>result (rdl_tag, html_tag). str_replace result rdl_tag html_tag) rdl RDL_TO_HTML"

definition html_to_rdl :: "string \<Rightarrow> string" where
  "html_to_rdl html =
     foldl (\<lambda>result (rdl_tag, html_tag). str_replace result html_tag rdl_tag) html RDL_TO_HTML"


section \<open>Python values: errors and dictionaries\<close>

datatype py_error = KeyError | IndexError | AttributeError

text \<open>
  A Python \<^verbatim>\<open>dict\<close> as an association list with pairwise distinct keys, in insertion
  order. Assigning to a key that is present replaces its value and keeps its position;
  a new key goes to the end. \<open>py_dict\<close> is \<^verbatim>\<open>dict(pairs)\<close>, also the result of a dict
  comprehension over the same pairs.
\<close>

fun dict_set :: "('k \<times> 'v) list \<Rightarrow> 'k \<Rightarrow> 'v \<Rightarrow> ('k \<times> 'v) list" where
  "dict_set [] k v = [(k, v)]"
| "dict_set ((k', v') # d) k v =
     (if k' = k then (k', v) # d else (k', v') # dict_set d k v)"

definition py_dict :: "('k \<times> 'v) list \<Rightarrow> ('k \<times> 'v) list" where
  "py_dict pairs = foldl (\<lambda>d (k, v). dict_set d k v) [] pairs"

text \<open>\<^verbatim>\<open>d[k]\<close> raises \<^verbatim>\<open>KeyError\<close> on a missing key; \<^verbatim>\<open>d.get(k)\<close> is \<open>map_of d k\<close>.\<close>

definition getitem :: "('k \<times> 'v) list \<Rightarrow> 'k \<Rightarrow> py_error + 'v" where
  "getitem d k = (case map_of d k of None \<Rightarrow> Inl KeyError | Some v \<Rightarrow> Inr v)"

text \<open>Running a fallible function over a list: the first exception raised ends the loop.\<close>

fun map_raise :: "('a \<Rightarrow> py_error + 'b) \<Rightarrow> 'a list \<Rightarrow> py_error + 'b list" where
  "map_raise f [] = Inr []"
| "map_raise f (x # xs) =
     (case f x of
        Inl e \<Rightarrow> Inl e
      | Inr y \<Rightarrow> (case map_raise f xs of Inl e \<Rightarrow> Inl e | Inr ys \<Rightarrow> Inr (y # ys)))"

text \<open>
  A field read from a record source: missing (\<^verbatim>\<open>None\<close>), one value, or a list of values
  when the key is repeated.
\<close>

datatype 'a ini_field = Absent | Single 'a | Many "'a list"

section \<open>Entities (flint/entities)\<close>

text \<open>
  The base class \<^verbatim>\<open>Entity\<close> comes from the package's \<^verbatim>\<open>__init__\<close>
  (\<^verbatim>\<open>from . import Entity, EntitySet\<close>); the methods below use its \<^verbatim>\<open>nickname\<close> only. Python's \<^verbatim>\<open>==\<close> and hashing of entities are taken as equality
  of the records, and an entity object is truthy.
\<close>

record entity =
  nickname :: string

text \<open>
  Modelled from the spec: \<^verbatim>\<open>EntitySet\<close>, which comes from the package's \<^verbatim>\<open>__init__\<close>
  as well: "an ordered collection of entities", with "lookup by nickname", "filtering by
  concrete subtype" and a "unique-by-attribute lookup (returns the single entity matching
  a predicate, or absent if zero or ambiguous)". It is a dict from nickname to entity;
  iterating it yields the entities. \<^verbatim>\<open>es[nickname]\<close> raises \<^verbatim>\<open>KeyError\<close> on a miss
  (\<^verbatim>\<open>Base.bribes\<close> catches it around \<^verbatim>\<open>routines.get_factions()[x]\<close>) and \<^verbatim>\<open>es.get\<close>
  returns \<^verbatim>\<open>None\<close>.
\<close>

type_synonym 'a EntitySet = "(string \<times> 'a) list"

definition EntitySet :: "('a \<Rightarrow> string) \<Rightarrow> 'a list \<Rightarrow> 'a EntitySet" where
  "EntitySet nick entities = py_dict (map (\<lambda>e. (nick e, e)) entities)"

definition entities :: "'a EntitySet \<Rightarrow> 'a list" where
  "entities es = map snd es"

definition unique :: "('a \<Rightarrow> bool) \<Rightarrow> 'a EntitySet \<Rightarrow> 'a option" where
  "unique p es = (case filter p (entities es) of [e] \<Rightarrow> Some e | _ \<Rightarrow> None)"

subsection \<open>Solars (entities/solars.py)\<close>

record system = entity +
  file' :: string
  navmapscale :: real

record solar = entity +
  pos :: "real \<times> real \<times> real"
  rotate' :: "real \<times> real \<times> real"
  system_of :: system

record object = solar +
  archetype :: string

datatype goto_field =
  Goto "string \<times> string \<times> string"
| Gotos "(string \<times> string \<times> string) list"

record jump = object +
  goto :: goto_field

record trade_lane_ring = object +
  prev_ring :: "string option"
  next_ring :: "string option"
  tradelane_space_name :: int

record base_solar = object +
  reputation :: string
  base :: string

text \<open>
  The classified contents of a system. A \<^verbatim>\<open>PlanetaryBase\<close> is a \<^verbatim>\<open>BaseSolar\<close> for
  \<^verbatim>\<open>of_type\<close>; the other subclasses (stars, planets, wrecks, zones) have no method in
  what follows and are kept as plain objects.
\<close>

datatype contained =
  Jump jump
| TradeLaneRing trade_lane_ring
| BaseSolar base_solar
| Object object

fun contained_nickname :: "contained \<Rightarrow> string" where
  "contained_nickname (Jump j) = nickname j"
| "contained_nickname (TradeLaneRing r) = nickname r"
| "contained_nickname (BaseSolar b) = nickname b"
| "contained_nickname (Object ob) = nickname ob"

subsection \<open>Loadouts\<close>

datatype cargo_entry = Bare string | Pair string int

record loadout = entity +
  loadout_archetype :: "string option"
  cargo :: "cargo_entry ini_field"

subsection \<open>Bases, factions and mission bases (entities/universe.py)\<close>

record base_entity = entity +
  system :: string

record faction = entity +
  ids_short_name :: int
  rep :: "(real \<times> string) list"

text \<open>
  Modelled from the spec: the mission records of \<^verbatim>\<open>missions.MBase\<close>, from the module
  \<^verbatim>\<open>flint.missions\<close> ("per base nickname, mission-giver records (NPC lists with
  bribe/rumor/mission-offer fields)"). Only the attributes read below are kept. A rumor is
  a tuple whose last component is the resource id of its text.
\<close>

record npc =
  affiliation :: string
  rumor :: "(string list \<times> int) ini_field"

record mbase =
  local_faction :: string
  npcs :: "npc list"

text \<open>
  Modelled from the spec: the Entity Registry behind \<^verbatim>\<open>routines.get_*\<close> and
  \<^verbatim>\<open>missions.get_mbases\<close>, which "holds, per entity kind, an indexed collection keyed by
  a unique symbolic name". It holds the records in load order; the \<^verbatim>\<open>EntitySet\<close>s are
  built from them.
\<close>

record registry =
  all_systems :: "system list"
  all_contents :: "string \<Rightarrow> contained list"
  all_bases :: "base_entity list"
  all_factions :: "faction list"
  all_equipment :: "entity list"
  all_mbases :: "string \<rightharpoonup> mbase"

definition get_systems :: "registry \<Rightarrow> system EntitySet" where
  "get_systems reg = EntitySet nickname (all_systems reg)"

definition get_bases :: "registry \<Rightarrow> base_entity EntitySet" where
  "get_bases reg = EntitySet nickname (all_bases reg)"

definition get_factions :: "registry \<Rightarrow> faction EntitySet" where
  "get_factions reg = EntitySet nickname (all_factions reg)"

definition get_equipment :: "registry \<Rightarrow> entity EntitySet" where
  "get_equipment reg = EntitySet nickname (all_equipment reg)"

definition get_mbases :: "registry \<Rightarrow> (string \<rightharpoonup> mbase)" where
  "get_mbases reg = all_mbases reg"

definition contents :: "registry \<Rightarrow> system \<Rightarrow> contained EntitySet" where
  "contents reg self = EntitySet contained_nickname (all_contents reg (nickname self))"

text \<open>\<^verbatim>\<open>of_type\<close> at the three classes the code asks for; the order is kept.\<close>

definition of_type_Jump :: "contained EntitySet \<Rightarrow> jump EntitySet" where
  "of_type_Jump es = [(n, j). (n, Jump j) \<leftarrow> es]"

definition of_type_TradeLaneRing :: "contained EntitySet \<Rightarrow> trade_lane_ring EntitySet" where
  "of_type_TradeLaneRing es = [(n, r). (n, TradeLaneRing r) \<leftarrow> es]"

definition of_type_BaseSolar :: "contained EntitySet \<Rightarrow> base_solar EntitySet" where
  "of_type_BaseSolar es = [(n, b). (n, BaseSolar b) \<leftarrow> es]"

subsection \<open>\<^verbatim>\<open>Loadout.loot\<close>\<close>

text \<open>Truthiness of the cargo field: \<^verbatim>\<open>None\<close>, the empty string and the empty list are falsy.\<close>

fun cargo_truthy :: "cargo_entry ini_field \<Rightarrow> bool" where
  "cargo_truthy Absent = False"
| "cargo_truthy (Single (Bare n)) = (n \<noteq> [])"
| "cargo_truthy (Single (Pair n q)) = True"
| "cargo_truthy (Many es) = (es \<noteq> [])"

text \<open>
  \<^verbatim>\<open>if type(self.cargo) is not list and self.cargo: self.cargo = [self.cargo]\<close>:
  the assignment to the attribute of the entity.
\<close>

definition wrap_cargo :: "loadout \<Rightarrow> loadout" where
  "wrap_cargo self =
     (case cargo self of
        Single e \<Rightarrow> if cargo_truthy (Single e) then self\<lparr>cargo := Many [e]\<rparr> else self
      | _ \<Rightarrow> self)"

text \<open>One turn of the loop: a bare nickname stands for the amount 1; the lookup may raise.\<close>

fun loot_entry :: "registry \<Rightarrow> cargo_entry \<Rightarrow> py_error + (entity \<times> int)" where
  "loot_entry reg (Bare n) =
     (case getitem (get_equipment reg) n of Inl e \<Rightarrow> Inl e | Inr eq \<Rightarrow> Inr (eq, 1))"
| "loot_entry reg (Pair n q) =
     (case getitem (get_equipment reg) n of Inl e \<Rightarrow> Inl e | Inr eq \<Rightarrow> Inr (eq, q))"

text \<open>
  The loop over \<^verbatim>\<open>default\<close> (here \<open>dflt\<close>): a key that occurs more than once in \<open>result\<close> gets the
  number of its occurrences as its value.
\<close>

definition count_duplicates ::
  "(entity \<times> int) list \<Rightarrow> (entity \<times> int) list \<Rightarrow> (entity \<times> int) list" where
  "count_duplicates result dflt =
     map (\<lambda>(e, y). if count_list (map fst result) e > 1
                    then (e, int (count_list (map fst result) e)) else (e, y)) dflt"

text \<open>
  The result and the loadout as the call leaves it. After \<open>wrap_cargo\<close> a truthy cargo
  is a list, so the loop runs over the entries of a \<open>Many\<close> and over nothing otherwise.
\<close>

definition Loadout_loot ::
  "registry \<Rightarrow> loadout \<Rightarrow> (py_error + (entity \<times> int) list) \<times> loadout" where
  "Loadout_loot reg self =
     (let self' = wrap_cargo self;
          result = (case cargo self' of Many es \<Rightarrow> map_raise (loot_entry reg) es | _ \<Rightarrow> Inr [])
      in case result of
           Inl e \<Rightarrow> (Inl e, self')
         | Inr result \<Rightarrow> (Inr (count_duplicates result (py_dict result)), self'))"

subsection \<open>\<^verbatim>\<open>Jump.destination_system\<close> and \<^verbatim>\<open>System.connections\<close>\<close>

definition Jump_destination_system :: "registry \<Rightarrow> jump \<Rightarrow> py_error + system" where
  "Jump_destination_system reg self =
     (case goto self of
        Gotos gs \<Rightarrow> if gs = [] then Inl IndexError else getitem (get_systems reg) (fst (last gs))
      | Goto g \<Rightarrow> getitem (get_systems reg) (fst g))"

definition System_connections :: "registry \<Rightarrow> system \<Rightarrow> py_error + (jump \<times> system) list" where
  "System_connections reg self =
     (case map_raise
             (\<lambda>c. case Jump_destination_system reg c of Inl e \<Rightarrow> Inl e | Inr d \<Rightarrow> Inr (c, d))
             (entities (of_type_Jump (contents reg self))) of
        Inl e \<Rightarrow> Inl e
      | Inr pairs \<Rightarrow> Inr (py_dict pairs))"

subsection \<open>\<^verbatim>\<open>System.lanes\<close>\<close>

text \<open>
  The \<^verbatim>\<open>while\<close> loop that follows \<^verbatim>\<open>next_ring\<close> from one ring: the rings it appends, in
  order. Nothing bounds the loop (two rings may name each other), so it is a partial
  function: \<open>None\<close> when it does not return.
\<close>

partial_function (option) follow_lane ::
  "trade_lane_ring EntitySet \<Rightarrow> trade_lane_ring \<Rightarrow> trade_lane_ring list option" where
  "follow_lane rings current_ring =
     (case next_ring current_ring of
        None \<Rightarrow> Some []
      | Some n \<Rightarrow>
          if n = [] then Some []
          else (case map_of rings n of
                  None \<Rightarrow> Some []
                | Some r \<Rightarrow> Option.bind (follow_lane rings r) (\<lambda>rest. Some (r # rest))))"

text \<open>The \<^verbatim>\<open>for\<close> loop over the rings that start a lane, and the flattening at the end.\<close>

fun lanes_loop ::
  "trade_lane_ring EntitySet \<Rightarrow> trade_lane_ring list \<Rightarrow> trade_lane_ring list list option" where
  "lanes_loop rings [] = Some []"
| "lanes_loop rings (first_ring # rest) =
     (case follow_lane rings first_ring of
        None \<Rightarrow> None
      | Some r \<Rightarrow> (case lanes_loop rings rest of
                     None \<Rightarrow> None
                   | Some ls \<Rightarrow> Some ((first_ring # r) # ls)))"

definition System_rings :: "registry \<Rightarrow> system \<Rightarrow> trade_lane_ring EntitySet" where
  "System_rings reg self =
     EntitySet nickname (entities (of_type_TradeLaneRing (contents reg self)))"

definition System_lanes :: "registry \<Rightarrow> system \<Rightarrow> trade_lane_ring list list option" where
  "System_lanes reg self =
     (let rings = System_rings reg self;
          lanes = py_dict (map (\<lambda>r. (r, [] :: trade_lane_ring list)) (filter (\<lambda>r. prev_ring r = None) (entities rings)))
      in lanes_loop rings (map fst lanes))"

text \<open>
  The hypothesis of the broken-chain claim, in the spec's words: \<open>rs\<close> are the rings
  reached from \<open>current_ring\<close>, each the ring that its predecessor's \<^verbatim>\<open>next_ring\<close>
  resolves to, and the \<^verbatim>\<open>next_ring\<close> of the last one names no ring of the system.
\<close>

fun broken_chain ::
  "trade_lane_ring EntitySet \<Rightarrow> trade_lane_ring \<Rightarrow> trade_lane_ring list \<Rightarrow> bool" where
  "broken_chain rings current_ring [] =
     (case next_ring current_ring of
        None \<Rightarrow> False
      | Some n \<Rightarrow> n \<noteq> [] \<and> map_of rings n = None)"
| "broken_chain rings current_ring (r # rs) =
     (case next_ring current_ring of
        None \<Rightarrow> False
      | Some n \<Rightarrow> n \<noteq> [] \<and> map_of rings n = Some r \<and> broken_chain rings r rs)"

subsection \<open>\<^verbatim>\<open>Base\<close>\<close>

definition System_bases :: "registry \<Rightarrow> system \<Rightarrow> base_solar EntitySet" where
  "System_bases reg self = of_type_BaseSolar (contents reg self)"

definition Base_system' :: "registry \<Rightarrow> base_entity \<Rightarrow> py_error + system" where
  "Base_system' reg self = getitem (get_systems reg) (system self)"

definition Base_solar :: "registry \<Rightarrow> base_entity \<Rightarrow> py_error + base_solar option" where
  "Base_solar reg self =
     (case Base_system' reg self of
        Inl e \<Rightarrow> Inl e
      | Inr sys \<Rightarrow> Inr (unique (\<lambda>s. base s = nickname self) (System_bases reg sys)))"

definition Base_has_solar :: "registry \<Rightarrow> base_entity \<Rightarrow> py_error + bool" where
  "Base_has_solar reg self =
     (case Base_solar reg self of Inl e \<Rightarrow> Inl e | Inr s \<Rightarrow> Inr (s \<noteq> None))"

definition Base_mbase :: "registry \<Rightarrow> base_entity \<Rightarrow> mbase option" where
  "Base_mbase reg self = get_mbases reg (nickname self)"

definition BaseSolar_owner :: "registry \<Rightarrow> base_solar \<Rightarrow> py_error + faction" where
  "BaseSolar_owner reg self = getitem (get_factions reg) (reputation self)"

text \<open>
  \<^verbatim>\<open>Base.owner\<close>: the owner of the solar when there is one, else the local faction of
  the mission base when there is one, else \<^verbatim>\<open>None\<close>. (\<^verbatim>\<open>None.owner()\<close> would raise
  \<^verbatim>\<open>AttributeError\<close>.)
\<close>

definition Base_owner :: "registry \<Rightarrow> base_entity \<Rightarrow> py_error + faction option" where
  "Base_owner reg self =
     (case Base_has_solar reg self of
        Inl e \<Rightarrow> Inl e
      | Inr True \<Rightarrow>
          (case Base_solar reg self of
             Inl e \<Rightarrow> Inl e
           | Inr None \<Rightarrow> Inl AttributeError
           | Inr (Some s) \<Rightarrow>
               (case BaseSolar_owner reg s of Inl e \<Rightarrow> Inl e | Inr f \<Rightarrow> Inr (Some f)))
      | Inr False \<Rightarrow>
          (case Base_mbase reg self of
             Some m \<Rightarrow>
               (case getitem (get_factions reg) (local_faction m) of
                  Inl e \<Rightarrow> Inl e
                | Inr f \<Rightarrow> Inr (Some f))
           | None \<Rightarrow> Inr None))"

subsection \<open>\<^verbatim>\<open>Base.rumors\<close>\<close>

fun rumor_truthy :: "(string list \<times> int) ini_field \<Rightarrow> bool" where
  "rumor_truthy Absent = False"
| "rumor_truthy (Single r) = True"
| "rumor_truthy (Many rs) = (rs \<noteq> [])"

text \<open>\<^verbatim>\<open>if type(npc.rumor) is not list: npc.rumor = [npc.rumor]\<close>, run when the rumor is truthy.\<close>

definition wrap_rumor :: "npc \<Rightarrow> npc" where
  "wrap_rumor n = (case rumor n of Single r \<Rightarrow> n\<lparr>rumor := Many [r]\<rparr> | _ \<Rightarrow> n)"

definition rumor_ids :: "npc \<Rightarrow> int list" where
  "rumor_ids n = (case rumor n of Many rs \<Rightarrow> map snd rs | _ \<Rightarrow> [])"

text \<open>\<^verbatim>\<open>rumors[key].update(new)\<close> on a \<^verbatim>\<open>defaultdict(set)\<close>.\<close>

definition update_set ::
  "(faction \<times> string set) list \<Rightarrow> faction \<Rightarrow> string set \<Rightarrow> (faction \<times> string set) list" where
  "update_set rumors key new =
     dict_set rumors key ((case map_of rumors key of None \<Rightarrow> {} | Some old \<Rightarrow> old) \<union> new)"

text \<open>
  The loop over the NPCs: the dict collected so far goes in; the result (or the exception)
  and the NPCs as the loop leaves them come out. \<open>factions\<close> is
  \<^verbatim>\<open>routines.get_factions()\<close> and \<open>lookup\<close> the resource-string lookup of the chosen
  markup format.
\<close>

fun rumors_loop ::
  "faction EntitySet \<Rightarrow> (int \<Rightarrow> string) \<Rightarrow> npc list \<Rightarrow> (faction \<times> string set) list \<Rightarrow>
   (py_error + (faction \<times> string set) list) \<times> npc list" where
  "rumors_loop factions lookup [] rumors = (Inr rumors, [])"
| "rumors_loop factions lookup (n # ns) rumors =
     (if rumor_truthy (rumor n) then
        (let n' = wrap_rumor n in
         case getitem factions (affiliation n') of
           Inl e \<Rightarrow> (Inl e, n' # ns)
         | Inr f \<Rightarrow>
             (case rumors_loop factions lookup ns
                     (update_set rumors f (set (map lookup (rumor_ids n')))) of
                (res, ns') \<Rightarrow> (res, n' # ns')))
      else (case rumors_loop factions lookup ns rumors of (res, ns') \<Rightarrow> (res, n # ns')))"

text \<open>The result and the registry as the call leaves it: the NPCs belong to the cached mission base.\<close>

definition Base_rumors ::
  "registry \<Rightarrow> (int \<Rightarrow> string) \<Rightarrow> base_entity \<Rightarrow>
   (py_error + (faction \<times> string set) list) \<times> registry" where
  "Base_rumors reg lookup self =
     (case Base_mbase reg self of
        None \<Rightarrow> (Inr [], reg)
      | Some m \<Rightarrow>
          (case rumors_loop (get_factions reg) lookup (npcs m) [] of
             (res, ns') \<Rightarrow>
               (res, reg\<lparr>all_mbases := (all_mbases reg)(nickname self \<mapsto> m\<lparr>npcs := ns'\<rparr>)\<rparr>)))"

subsection \<open>\<^verbatim>\<open>Faction\<close>\<close>

fun filter_raise :: "('a \<Rightarrow> py_error + bool) \<Rightarrow> 'a list \<Rightarrow> py_error + 'a list" where
  "filter_raise p [] = Inr []"
| "filter_raise p (x # xs) =
     (case p x of
        Inl e \<Rightarrow> Inl e
      | Inr b \<Rightarrow> (case filter_raise p xs of
                     Inl e \<Rightarrow> Inl e
                   | Inr ys \<Rightarrow> Inr (if b then x # ys else ys)))"

text \<open>The condition of the generator in \<^verbatim>\<open>Faction.bases\<close>; \<^verbatim>\<open>and\<close> is short-circuit.\<close>

definition owned_by :: "registry \<Rightarrow> faction \<Rightarrow> base_entity \<Rightarrow> py_error + bool" where
  "owned_by reg self b =
     (case Base_has_solar reg b of
        Inl e \<Rightarrow> Inl e
      | Inr False \<Rightarrow> Inr False
      | Inr True \<Rightarrow>
          (case Base_solar reg b of
             Inl e \<Rightarrow> Inl e
           | Inr None \<Rightarrow> Inl AttributeError
           | Inr (Some s) \<Rightarrow> Inr (reputation s = nickname self)))"

definition Faction_bases :: "registry \<Rightarrow> faction \<Rightarrow> py_error + base_entity EntitySet" where
  "Faction_bases reg self =
     (case filter_raise (owned_by reg self) (entities (get_bases reg)) of
        Inl e \<Rightarrow> Inl e
      | Inr bs \<Rightarrow> Inr (EntitySet nickname bs))"

definition Faction_rep_sheet :: "registry \<Rightarrow> faction \<Rightarrow> (faction \<times> real) list" where
  "Faction_rep_sheet reg self =
     py_dict (concat (map (\<lambda>(r, n). case map_of (get_factions reg) n of
                                       None \<Rightarrow> []
                                     | Some f \<Rightarrow> [(f, r)]) (rep self)))"

definition NODOCK_REP :: real where
  "NODOCK_REP = - 0.65"

text \<open>
  \<^verbatim>\<open>Faction.can_dock_at\<close> is annotated for a \<^verbatim>\<open>BaseSolar\<close> and works on anything with an
  \<^verbatim>\<open>owner()\<close>; both classes that have one are taken.
\<close>

datatype dock_target = AtBase base_entity | AtSolar base_solar

fun target_owner :: "registry \<Rightarrow> dock_target \<Rightarrow> py_error + faction option" where
  "target_owner reg (AtBase b) = Base_owner reg b"
| "target_owner reg (AtSolar s) =
     (case BaseSolar_owner reg s of Inl e \<Rightarrow> Inl e | Inr f \<Rightarrow> Inr (Some f))"

definition Faction_can_dock_at :: "registry \<Rightarrow> faction \<Rightarrow> dock_target \<Rightarrow> py_error + bool" where
  "Faction_can_dock_at reg self b =
     (let sheet = Faction_rep_sheet reg self in
      case target_owner reg b of
        Inl e \<Rightarrow> Inl e
      | Inr None \<Rightarrow> Inl KeyError
      | Inr (Some f) \<Rightarrow>
          (case getitem sheet f of Inl e \<Rightarrow> Inl e | Inr v \<Rightarrow> Inr (v > NODOCK_REP)))"

section \<open>Example data\<close>

definition empty_registry :: registry where
  "empty_registry =
     \<lparr>all_systems = [], all_contents = (\<lambda>n. []), all_bases = [], all_factions = [],
      all_equipment = [], all_mbases = Map.empty\<rparr>"

text \<open>The cargo of the spec's loadout example, with both items in the equipment registry.\<close>

definition loot_registry :: registry where
  "loot_registry =
     empty_registry\<lparr>all_equipment := [\<lparr>nickname = ''ammo_01''\<rparr>, \<lparr>nickname = ''shield_01''\<rparr>]\<rparr>"

definition spec_loadout :: loadout where
  "spec_loadout =
     \<lparr>nickname = ''li_wreck_01'', loadout_archetype = None,
      cargo = Many [Pair ''ammo_01'' 3, Pair ''ammo_01'' 2, Bare ''shield_01'']\<rparr>"

text \<open>A loadout with a single cargo tuple, and a mission base with one NPC that tells one rumor.\<close>

definition single_loadout :: loadout where
  "single_loadout =
     \<lparr>nickname = ''li_wreck_02'', loadout_archetype = None, cargo = Single (Pair ''ammo_01'' 3)\<rparr>"

definition rumor_registry :: registry where
  "rumor_registry =
     loot_registry
       \<lparr>all_factions := [\<lparr>nickname = ''li_n_grp'', ids_short_name = 0, rep = []\<rparr>],
        all_mbases :=
          [''li01_01_base'' \<mapsto>
             \<lparr>local_faction = ''li_n_grp'',
              npcs = [\<lparr>affiliation = ''li_n_grp'',
                       rumor = Single ([''base_0_rank'', ''mission_end''], 131131)\<rparr>]\<rparr>]\<rparr>"

definition manhattan :: base_entity where
  "manhattan = \<lparr>nickname = ''li01_01_base'', system = ''li01''\<rparr>"

text \<open>
  One system, \<open>li01\<close>, with two stations. Manhattan has a solar run by \<open>li_n_grp\<close>,
  Rochester one run by \<open>fc_x_grp\<close>; Newark has neither a solar nor a mission base;
  Baltimore has no solar and a mission base of \<open>li_n_grp\<close>.
\<close>

definition mk_system :: "string \<Rightarrow> system" where
  "mk_system n = \<lparr>nickname = n, file' = ''systems/'' @ n @ ''.ini'', navmapscale = 1\<rparr>"

definition mk_base_solar :: "string \<Rightarrow> system \<Rightarrow> string \<Rightarrow> string \<Rightarrow> base_solar" where
  "mk_base_solar n s r b =
     \<lparr>nickname = n, pos = (0, 0, 0), rotate' = (0, 0, 0), system_of = s,
      archetype = ''space_station'', reputation = r, base = b\<rparr>"

definition li_n_grp :: faction where
  "li_n_grp =
     \<lparr>nickname = ''li_n_grp'', ids_short_name = 0,
      rep = [(0.9, ''li_n_grp''), (- 0.7, ''fc_x_grp'')]\<rparr>"

definition fc_x_grp :: faction where
  "fc_x_grp =
     \<lparr>nickname = ''fc_x_grp'', ids_short_name = 0,
      rep = [(- 0.3, ''li_n_grp''), (0.9, ''fc_x_grp''), (1, ''gone_grp'')]\<rparr>"

definition rochester :: base_entity where
  "rochester = \<lparr>nickname = ''li01_04_base'', system = ''li01''\<rparr>"

definition newark :: base_entity where
  "newark = \<lparr>nickname = ''li01_02_base'', system = ''li01''\<rparr>"

definition baltimore :: base_entity where
  "baltimore = \<lparr>nickname = ''li01_03_base'', system = ''li01''\<rparr>"

definition dock_registry :: registry where
  "dock_registry =
     \<lparr>all_systems = [mk_system ''li01''],
      all_contents = (\<lambda>n. if n = ''li01''
         then [BaseSolar (mk_base_solar ''li01_01'' (mk_system ''li01'') ''li_n_grp'' ''li01_01_base''),
               BaseSolar (mk_base_solar ''li01_04'' (mk_system ''li01'') ''fc_x_grp'' ''li01_04_base'')]
         else []),
      all_bases = [manhattan, newark, baltimore, rochester],
      all_factions = [li_n_grp, fc_x_grp],
      all_equipment = [],
      all_mbases = [''li01_03_base'' \<mapsto> \<lparr>local_faction = ''li_n_grp'', npcs = []\<rparr>]\<rparr>"

text \<open>Two systems and a jump gate from the first to the second, or to a system that is not there.\<close>

definition mk_jump :: "string \<Rightarrow> system \<Rightarrow> string \<Rightarrow> jump" where
  "mk_jump n s dest =
     \<lparr>nickname = n, pos = (0, 0, 0), rotate' = (0, 0, 0), system_of = s,
      archetype = ''jumpgate'', goto = Goto (dest, n, ''gate_tunnel_bretonia'')\<rparr>"

definition jump_registry :: "string \<Rightarrow> registry" where
  "jump_registry dest =
     empty_registry
       \<lparr>all_systems := [mk_system ''li01'', mk_system ''li02''],
        all_contents := (\<lambda>n. if n = ''li01''
           then [Jump (mk_jump ''li01_to_li02'' (mk_system ''li01'') dest)] else [])\<rparr>"

text \<open>
  Trade lanes. \<open>lane_registry\<close> holds the three linked rings of the spec's example (listed
  out of order, after a gate); in \<open>broken_registry\<close> the second ring names a ring that
  is not there; \<open>looping_registry\<close> has, besides that broken lane, a ring that starts a
  lane and names itself as its next ring.
\<close>

definition mk_ring :: "string \<Rightarrow> string option \<Rightarrow> string option \<Rightarrow> trade_lane_ring" where
  "mk_ring n p nx =
     \<lparr>nickname = n, pos = (0, 0, 0), rotate' = (0, 0, 0), system_of = mk_system ''li01'',
      archetype = ''Trade_Lane_Ring'', prev_ring = p, next_ring = nx,
      tradelane_space_name = 0\<rparr>"

definition lane_registry :: registry where
  "lane_registry =
     empty_registry
       \<lparr>all_systems := [mk_system ''li01''],
        all_contents := (\<lambda>n. if n = ''li01''
           then [TradeLaneRing (mk_ring ''ring_3'' (Some ''ring_2'') None),
                 Jump (mk_jump ''li01_to_li02'' (mk_system ''li01'') ''li02''),
                 TradeLaneRing (mk_ring ''ring_1'' None (Some ''ring_2'')),
                 TradeLaneRing (mk_ring ''ring_2'' (Some ''ring_1'') (Some ''ring_3''))]
           else [])\<rparr>"

definition broken_registry :: registry where
  "broken_registry =
     empty_registry
       \<lparr>all_systems := [mk_system ''li01''],
        all_contents := (\<lambda>n. if n = ''li01''
           then [TradeLaneRing (mk_ring ''ring_1'' None (Some ''ring_2'')),
                 TradeLaneRing (mk_ring ''ring_2'' (Some ''ring_1'') (Some ''ring_3''))]
           else [])\<rparr>"

definition looping_registry :: registry where
  "looping_registry =
     empty_registry
       \<lparr>all_systems := [mk_system ''li01''],
        all_contents := (\<lambda>n. if n = ''li01''
           then [TradeLaneRing (mk_ring ''ring_1'' None (Some ''ring_2'')),
                 TradeLaneRing (mk_ring ''ring_2'' (Some ''ring_1'') (Some ''ring_3'')),
                 TradeLaneRing (mk_ring ''ring_9'' None (Some ''ring_9''))]
           else [])\<rparr>"

section \<open>Properties of the markup translator\<close>

lemma replace_scan_absent: "\<not> str_contains s old \<Longrightarrow> replace_scan old new s = s"
  by (induction s) auto

lemma str_replace_absent:
  "old \<noteq> [] \<Longrightarrow> \<not> str_contains s old \<Longrightarrow> str_replace s old new = s"
  by (simp add: str_replace_def replace_scan_absent)

lemma foldl_replace_absent:
  "\<forall>(rdl_tag, html_tag) \<in> set T. rdl_tag \<noteq> [] \<and> \<not> str_contains s rdl_tag \<Longrightarrow>
   foldl (\<lambda>result (rdl_tag, html_tag). str_replace result rdl_tag html_tag) s T = s"
  by (induction T) (auto simp: str_replace_absent)

lemma rdl_tags_nonempty: "\<forall>(rdl_tag, html_tag) \<in> set RDL_TO_HTML. rdl_tag \<noteq> []"
  by (simp add: RDL_TO_HTML_def)

lemma rdl_tags_distinct: "distinct (map fst RDL_TO_HTML)"
  by (simp add: RDL_TO_HTML_def)

text \<open>
  Claim C8. A string in which no markup-side pattern of the table occurs is a fixed point
  of the forward translator: \<open>rdl_to_html\<close> returns it unchanged. (The claim's further
  restriction to strings holding only HTML-side tags is not needed.)
\<close>

theorem rdl_to_html_fixed_point:
  assumes "\<forall>(rdl_tag, html_tag) \<in> set RDL_TO_HTML. \<not> str_contains s rdl_tag"
  shows "rdl_to_html s = s"
proof -
  from assms rdl_tags_nonempty
  have "\<forall>(rdl_tag, html_tag) \<in> set RDL_TO_HTML. rdl_tag \<noteq> [] \<and> \<not> str_contains s rdl_tag"
    by fastforce
  then show ?thesis
    unfolding rdl_to_html_def by (rule foldl_replace_absent)
qed

theorem rdl_to_html_fixed_point_witness:
  "list_all (\<lambda>(rdl_tag, html_tag). \<not> str_contains ''<b>Planet Manhattan</b><p>New York'' rdl_tag)
     RDL_TO_HTML
   \<and> rdl_to_html ''<b>Planet Manhattan</b><p>New York'' = ''<b>Planet Manhattan</b><p>New York''"
proof -
  have h: "\<forall>(rdl_tag, html_tag) \<in> set RDL_TO_HTML.
      \<not> str_contains ''<b>Planet Manhattan</b><p>New York'' rdl_tag"
    by (simp add: RDL_TO_HTML_def)
  from rdl_to_html_fixed_point [OF h] h show ?thesis
    by (simp only: list_all_iff simp_thms)
qed

subsection \<open>Reverse, then forward\<close>

lemma str_replace_empty_old: "str_replace s [] new = new @ concat (map (\<lambda>c. c # new) s)"
  by (simp add: str_replace_def)

lemma html_to_rdl_last_steps:
  \<open>html_to_rdl H =
     str_replace (str_replace
       (foldl (\<lambda>result (rdl_tag, html_tag). str_replace result html_tag rdl_tag) H
          (take 35 RDL_TO_HTML))
       [] ''<POP/>'') [] ''<?xml version="1.0" encoding="UTF-16"?>''\<close>
proof -
  let ?f = "\<lambda>result (rdl_tag, html_tag). str_replace result html_tag rdl_tag"
  have d: \<open>drop 35 RDL_TO_HTML =
      [(''<POP/>'', []), (''<?xml version="1.0" encoding="UTF-16"?>'', [])]\<close>
    by (simp add: RDL_TO_HTML_def)
  have "foldl ?f H RDL_TO_HTML = foldl ?f (foldl ?f H (take 35 RDL_TO_HTML)) (drop 35 RDL_TO_HTML)"
    by (simp only: foldl_append [symmetric] append_take_drop_id)
  then show ?thesis
    unfolding html_to_rdl_def d by simp
qed

text \<open>
  The last two entries of the table have the empty string on the HTML side, so the reverse
  translator ends by putting the XML header before every character and at the end: its
  result starts with the header, a \<open><\<close>, and the header again.
\<close>

lemma html_to_rdl_starts:
  \<open>\<exists>t. html_to_rdl H =
     ''<?xml version="1.0" encoding="UTF-16"?><<?xml version="1.0" encoding="UTF-16"?>'' @ t\<close>
  unfolding html_to_rdl_last_steps str_replace_empty_old by simp

lemma forward_step_keeps_start:
  \<open>\<forall>(rdl_tag, html_tag) \<in> set (take 36 RDL_TO_HTML). \<forall>t.
     str_replace
       (''<?xml version="1.0" encoding="UTF-16"?><<?xml version="1.0" encoding="UTF-16"?>'' @ t)
       rdl_tag html_tag =
     ''<?xml version="1.0" encoding="UTF-16"?><<?xml version="1.0" encoding="UTF-16"?>'' @
       str_replace t rdl_tag html_tag\<close>
  by (simp add: RDL_TO_HTML_def str_replace_def)

lemma foldl_keeps_start:
  "\<forall>(rdl_tag, html_tag) \<in> set T. \<forall>t.
     str_replace (Q @ t) rdl_tag html_tag = Q @ str_replace t rdl_tag html_tag \<Longrightarrow>
   \<exists>t'. foldl (\<lambda>result (rdl_tag, html_tag). str_replace result rdl_tag html_tag) (Q @ t) T
          = Q @ t'"
  by (induction T arbitrary: t) auto

lemma rdl_to_html_last_step:
  \<open>rdl_to_html s =
     str_replace
       (foldl (\<lambda>result (rdl_tag, html_tag). str_replace result rdl_tag html_tag) s
          (take 36 RDL_TO_HTML))
       ''<?xml version="1.0" encoding="UTF-16"?>'' []\<close>
proof -
  let ?f = "\<lambda>result (rdl_tag, html_tag). str_replace result rdl_tag html_tag"
  have d: \<open>drop 36 RDL_TO_HTML = [(''<?xml version="1.0" encoding="UTF-16"?>'', [])]\<close>
    by (simp add: RDL_TO_HTML_def)
  have "foldl ?f s RDL_TO_HTML = foldl ?f (foldl ?f s (take 36 RDL_TO_HTML)) (drop 36 RDL_TO_HTML)"
    by (simp only: foldl_append [symmetric] append_take_drop_id)
  then show ?thesis
    unfolding rdl_to_html_def d by simp
qed

text \<open>
  Whatever the HTML, translating it back and forth gives a string that starts with \<open><\<close>:
  the forward translator takes the headers out again and leaves the tags that were put
  between the characters before them.
\<close>

lemma reverse_then_forward_starts: "\<exists>t. rdl_to_html (html_to_rdl H) = CHR ''<'' # t"
proof -
  obtain t where t: \<open>html_to_rdl H =
     ''<?xml version="1.0" encoding="UTF-16"?><<?xml version="1.0" encoding="UTF-16"?>'' @ t\<close>
    using html_to_rdl_starts by blast
  obtain t' where t': \<open>foldl (\<lambda>result (rdl_tag, html_tag). str_replace result rdl_tag html_tag)
      (html_to_rdl H) (take 36 RDL_TO_HTML) =
     ''<?xml version="1.0" encoding="UTF-16"?><<?xml version="1.0" encoding="UTF-16"?>'' @ t'\<close>
    unfolding t using foldl_keeps_start [OF forward_step_keeps_start] by blast
  show ?thesis
    unfolding rdl_to_html_last_step t' by (simp add: str_replace_def)
qed

text \<open>
  Claim C3 says that \<open>rdl_to_html (html_to_rdl H) = H\<close> for every \<open>H\<close> the forward
  translator produces. The code does not do that: \<open>Planet Manhattan\<close> and the empty
  string are outputs of the forward translator (of themselves), and reverse-then-forward
  gives back neither.
\<close>

theorem reverse_forward_not_stable:
  "rdl_to_html ''Planet Manhattan'' = ''Planet Manhattan''
   \<and> rdl_to_html (html_to_rdl ''Planet Manhattan'') \<noteq> ''Planet Manhattan''
   \<and> rdl_to_html [] = []
   \<and> rdl_to_html (html_to_rdl []) \<noteq> []"
proof -
  have a: "rdl_to_html ''Planet Manhattan'' = ''Planet Manhattan''"
    by (simp add: rdl_to_html_def RDL_TO_HTML_def str_replace_def)
  have b: "rdl_to_html [] = []"
    by (simp add: rdl_to_html_def RDL_TO_HTML_def str_replace_def)
  obtain t where "rdl_to_html (html_to_rdl ''Planet Manhattan'') = CHR ''<'' # t"
    using reverse_then_forward_starts by blast
  then have c: "rdl_to_html (html_to_rdl ''Planet Manhattan'') \<noteq> ''Planet Manhattan''"
    by simp
  obtain u where "rdl_to_html (html_to_rdl []) = CHR ''<'' # u"
    using reverse_then_forward_starts by blast
  then have d: "rdl_to_html (html_to_rdl []) \<noteq> []"
    by simp
  from a b c d show ?thesis by blast
qed

section \<open>Properties of \<^verbatim>\<open>Loadout.loot\<close>\<close>

text \<open>
  Claim C1 says that duplicate nicknames are aggregated by summing their quantities, so
  that the cargo \<open>[("ammo_01", 3), ("ammo_01", 2), "shield_01"]\<close> gives the amount 5 for
  \<open>ammo_01\<close>. The code gives 2 there, the number of times the nickname occurs; the order
  of first occurrence is kept.
\<close>

theorem loot_spec_example:
  "fst (Loadout_loot loot_registry spec_loadout) =
     Inr [(\<lparr>nickname = ''ammo_01''\<rparr>, 2), (\<lparr>nickname = ''shield_01''\<rparr>, 1)]"
  by (simp add: Loadout_loot_def loot_registry_def spec_loadout_def empty_registry_def
      wrap_cargo_def get_equipment_def EntitySet_def py_dict_def getitem_def
      count_duplicates_def)

section \<open>What the queries change\<close>

lemma wrap_cargo_idem: "wrap_cargo (wrap_cargo l) = wrap_cargo l"
  by (auto simp: wrap_cargo_def split: ini_field.splits)

lemma loot_state: "snd (Loadout_loot reg l) = wrap_cargo l"
  by (simp add: Loadout_loot_def Let_def split: sum.splits)

lemma loot_result_wrap: "fst (Loadout_loot reg (wrap_cargo l)) = fst (Loadout_loot reg l)"
  by (simp add: Loadout_loot_def Let_def wrap_cargo_idem split: sum.splits)

lemma loot_again: "Loadout_loot reg (snd (Loadout_loot reg l)) = Loadout_loot reg l"
  by (metis loot_state loot_result_wrap wrap_cargo_idem prod.collapse)

lemma wrap_cargo_cases:
  "wrap_cargo l = l\<lparr>cargo := (case cargo l of
       Single e \<Rightarrow> if cargo_truthy (Single e) then Many [e] else Single e
     | c \<Rightarrow> c)\<rparr>"
  by (auto simp: wrap_cargo_def split: ini_field.splits)

lemma wrap_rumor_idem: "wrap_rumor (wrap_rumor n) = wrap_rumor n"
  by (auto simp: wrap_rumor_def split: ini_field.splits)

lemma wrap_rumor_truthy: "rumor_truthy (rumor n) \<Longrightarrow> rumor_truthy (rumor (wrap_rumor n))"
  by (auto simp: wrap_rumor_def split: ini_field.splits)

lemma wrap_rumor_affiliation: "affiliation (wrap_rumor n) = affiliation n"
  by (auto simp: wrap_rumor_def split: ini_field.splits)

lemma rumors_loop_again:
  "rumors_loop fs lk ns acc = (res, ns') \<Longrightarrow> rumors_loop fs lk ns' acc = (res, ns')"
proof (induction ns arbitrary: acc res ns')
  case Nil
  then show ?case by simp
next
  case (Cons n ns)
  show ?case
  proof (cases "rumor_truthy (rumor n)")
    case False
    obtain r1 m1 where r1: "rumors_loop fs lk ns acc = (r1, m1)" by (cases "rumors_loop fs lk ns acc")
    with Cons.prems False have eq: "res = r1" "ns' = n # m1" by auto
    from Cons.IH [OF r1] False show ?thesis by (simp add: eq)
  next
    case True
    show ?thesis
    proof (cases "getitem fs (affiliation (wrap_rumor n))")
      case (Inl e)
      with Cons.prems True have eq: "res = Inl e" "ns' = wrap_rumor n # ns" by (auto simp: Let_def)
      from Inl True show ?thesis
        by (simp add: eq Let_def wrap_rumor_truthy wrap_rumor_idem)
    next
      case (Inr f)
      let ?acc = "update_set acc f (set (map lk (rumor_ids (wrap_rumor n))))"
      obtain r1 m1 where r1: "rumors_loop fs lk ns ?acc = (r1, m1)"
        by (cases "rumors_loop fs lk ns ?acc")
      with Cons.prems True Inr have eq: "res = r1" "ns' = wrap_rumor n # m1" by (auto simp: Let_def)
      from Cons.IH [OF r1] Inr True show ?thesis
        by (simp add: eq Let_def wrap_rumor_truthy wrap_rumor_idem)
    qed
  qed
qed

lemma rumors_loop_npcs:
  "rumors_loop fs lk ns acc = (res, ns') \<Longrightarrow>
   list_all2 (\<lambda>n n'. n' = n \<or> n' = wrap_rumor n) ns ns'"
proof (induction ns arbitrary: acc res ns')
  case Nil
  then show ?case by simp
next
  case (Cons n ns)
  then show ?case
    by (auto simp: Let_def list_all2_refl list.rel_refl split: if_splits sum.splits prod.splits)
qed

lemma Base_rumors_again:
  "Base_rumors reg lk b = (res, reg') \<Longrightarrow> Base_rumors reg' lk b = (res, reg')"
proof (cases "Base_mbase reg b")
  case None
  assume "Base_rumors reg lk b = (res, reg')"
  with None show ?thesis by (auto simp: Base_rumors_def)
next
  case (Some m)
  assume a: "Base_rumors reg lk b = (res, reg')"
  obtain ns' where l: "rumors_loop (get_factions reg) lk (npcs m) [] = (res, ns')"
    and r: "reg' = reg\<lparr>all_mbases := (all_mbases reg)(nickname b \<mapsto> m\<lparr>npcs := ns'\<rparr>)\<rparr>"
    using a Some by (auto simp: Base_rumors_def split: prod.splits)
  have g: "get_factions reg' = get_factions reg" by (simp add: r get_factions_def)
  have mb: "Base_mbase reg' b = Some (m\<lparr>npcs := ns'\<rparr>)"
    by (simp add: r Base_mbase_def get_mbases_def)
  from rumors_loop_again [OF l] show ?thesis
    by (simp add: Base_rumors_def mb g) (simp add: r)
qed

lemma rumors_loop_wraps:
  "rumors_loop fs lk ns acc = (res, ns') \<Longrightarrow>
   list_all2 (\<lambda>n n'. affiliation n' = affiliation n \<and>
        (rumor n' = rumor n \<or> (\<exists>r. rumor n = Single r \<and> rumor n' = Many [r]))) ns ns'"
proof -
  assume "rumors_loop fs lk ns acc = (res, ns')"
  then have "list_all2 (\<lambda>n n'. n' = n \<or> n' = wrap_rumor n) ns ns'"
    by (rule rumors_loop_npcs)
  then show ?thesis
    by (rule list_all2_mono) (auto simp: wrap_rumor_def split: ini_field.splits)
qed

text \<open>
  Claim C4 says that no query modifies any attribute of any entity. \<^verbatim>\<open>Loadout.loot\<close>
  does: a loadout whose cargo is one tuple leaves the call with the one-element list of
  that tuple as its cargo.
\<close>

theorem loot_changes_cargo:
  "cargo single_loadout = Single (Pair ''ammo_01'' 3)
   \<and> cargo (snd (Loadout_loot loot_registry single_loadout)) = Many [Pair ''ammo_01'' 3]
   \<and> snd (Loadout_loot loot_registry single_loadout) \<noteq> single_loadout"
proof -
  have a: "cargo single_loadout = Single (Pair ''ammo_01'' 3)"
    by (simp add: single_loadout_def)
  have b: "cargo (snd (Loadout_loot loot_registry single_loadout)) = Many [Pair ''ammo_01'' 3]"
    by (simp add: loot_state wrap_cargo_def single_loadout_def)
  from a b show ?thesis by auto
qed

text \<open>
  Claim C4 as amended. \<^verbatim>\<open>Loadout.loot\<close> changes no attribute of the loadout but
  \<open>cargo\<close>, where a truthy value that is not a list is replaced by the one-element list
  holding it; \<^verbatim>\<open>Base.rumors\<close> changes nothing in the registry but the NPCs of the base's
  own mission record, where each rumor field is left as it was or, when it was a single
  tuple, replaced by the one-element list holding it. Both rewrites are idempotent: a
  second call returns the same result and leaves the same state.
\<close>

theorem queries_only_wrap_fields:
  "nickname (snd (Loadout_loot reg l)) = nickname l
   \<and> loadout_archetype (snd (Loadout_loot reg l)) = loadout_archetype l
   \<and> cargo (snd (Loadout_loot reg l)) =
       (case cargo l of
          Single e \<Rightarrow> if cargo_truthy (Single e) then Many [e] else Single e
        | c \<Rightarrow> c)
   \<and> Loadout_loot reg (snd (Loadout_loot reg l)) = Loadout_loot reg l
   \<and> all_systems (snd (Base_rumors reg lk b)) = all_systems reg
   \<and> all_contents (snd (Base_rumors reg lk b)) = all_contents reg
   \<and> all_bases (snd (Base_rumors reg lk b)) = all_bases reg
   \<and> all_factions (snd (Base_rumors reg lk b)) = all_factions reg
   \<and> all_equipment (snd (Base_rumors reg lk b)) = all_equipment reg
   \<and> (\<forall>k. k \<noteq> nickname b \<longrightarrow> all_mbases (snd (Base_rumors reg lk b)) k = all_mbases reg k)
   \<and> rel_option
        (\<lambda>m m'. local_faction m' = local_faction m \<and>
           list_all2 (\<lambda>n n'. affiliation n' = affiliation n \<and>
               (rumor n' = rumor n \<or> (\<exists>r. rumor n = Single r \<and> rumor n' = Many [r])))
             (npcs m) (npcs m'))
        (all_mbases reg (nickname b)) (all_mbases (snd (Base_rumors reg lk b)) (nickname b))
   \<and> Base_rumors (snd (Base_rumors reg lk b)) lk b = Base_rumors reg lk b"
proof -
  have l1: "snd (Loadout_loot reg l) = wrap_cargo l" by (rule loot_state)
  have c1: "nickname (snd (Loadout_loot reg l)) = nickname l"
    unfolding l1 by (subst wrap_cargo_cases) simp
  have c2: "loadout_archetype (snd (Loadout_loot reg l)) = loadout_archetype l"
    unfolding l1 by (subst wrap_cargo_cases) simp
  have c3: "cargo (snd (Loadout_loot reg l)) =
       (case cargo l of
          Single e \<Rightarrow> if cargo_truthy (Single e) then Many [e] else Single e
        | c \<Rightarrow> c)"
    unfolding l1 by (subst wrap_cargo_cases) simp
  have c4: "Loadout_loot reg (snd (Loadout_loot reg l)) = Loadout_loot reg l"
    by (rule loot_again)
  obtain res reg' where r: "Base_rumors reg lk b = (res, reg')"
    by (cases "Base_rumors reg lk b")
  have c12: "Base_rumors (snd (Base_rumors reg lk b)) lk b = Base_rumors reg lk b"
    using Base_rumors_again [OF r] by (simp add: r)
  have rest: "all_systems reg' = all_systems reg \<and> all_contents reg' = all_contents reg
      \<and> all_bases reg' = all_bases reg \<and> all_factions reg' = all_factions reg
      \<and> all_equipment reg' = all_equipment reg
      \<and> (\<forall>k. k \<noteq> nickname b \<longrightarrow> all_mbases reg' k = all_mbases reg k)
      \<and> rel_option
        (\<lambda>m m'. local_faction m' = local_faction m \<and>
           list_all2 (\<lambda>n n'. affiliation n' = affiliation n \<and>
               (rumor n' = rumor n \<or> (\<exists>r. rumor n = Single r \<and> rumor n' = Many [r])))
             (npcs m) (npcs m'))
        (all_mbases reg (nickname b)) (all_mbases reg' (nickname b))"
  proof (cases "Base_mbase reg b")
    case None
    with r have "reg' = reg" by (simp add: Base_rumors_def)
    moreover from None have "all_mbases reg (nickname b) = None"
      by (simp add: Base_mbase_def get_mbases_def)
    ultimately show ?thesis by simp
  next
    case (Some m)
    obtain ns' where lp: "rumors_loop (get_factions reg) lk (npcs m) [] = (res, ns')"
      and r': "reg' = reg\<lparr>all_mbases := (all_mbases reg)(nickname b \<mapsto> m\<lparr>npcs := ns'\<rparr>)\<rparr>"
      using r Some by (auto simp: Base_rumors_def split: prod.splits)
    from Some have m: "all_mbases reg (nickname b) = Some m"
      by (simp add: Base_mbase_def get_mbases_def)
    from rumors_loop_wraps [OF lp] show ?thesis
      by (simp add: r' m)
  qed
  from c1 c2 c3 c4 c12 rest show ?thesis
    by (simp add: r)
qed

theorem queries_only_wrap_fields_witness:
  "cargo (snd (Loadout_loot rumor_registry single_loadout)) = Many [Pair ''ammo_01'' 3]
   \<and> Loadout_loot rumor_registry (snd (Loadout_loot rumor_registry single_loadout))
       = Loadout_loot rumor_registry single_loadout
   \<and> all_mbases (snd (Base_rumors rumor_registry (\<lambda>i. ''Rumor'') manhattan)) ''li01_02_base''
       = all_mbases rumor_registry ''li01_02_base''
   \<and> Base_rumors (snd (Base_rumors rumor_registry (\<lambda>i. ''Rumor'') manhattan)) (\<lambda>i. ''Rumor'') manhattan
       = Base_rumors rumor_registry (\<lambda>i. ''Rumor'') manhattan
   \<and> map rumor (npcs (the (all_mbases (snd (Base_rumors rumor_registry (\<lambda>i. ''Rumor'') manhattan))
        ''li01_01_base''))) = [Many [([''base_0_rank'', ''mission_end''], 131131)]]"
proof -
  have n: "''li01_02_base'' \<noteq> nickname manhattan" by (simp add: manhattan_def)
  have s: "map rumor (npcs (the (all_mbases (snd (Base_rumors rumor_registry (\<lambda>i. ''Rumor'') manhattan))
        ''li01_01_base''))) = [Many [([''base_0_rank'', ''mission_end''], 131131)]]"
    by (simp add: Base_rumors_def Base_mbase_def get_mbases_def rumor_registry_def manhattan_def
        loot_registry_def empty_registry_def get_factions_def EntitySet_def py_dict_def getitem_def wrap_rumor_def
        Let_def)
  from queries_only_wrap_fields [of rumor_registry single_loadout "\<lambda>i. ''Rumor''" manhattan]
    n s show ?thesis
    by (simp add: single_loadout_def)
qed

section \<open>Dictionaries and entity sets\<close>

lemma dict_set_subset: "set (dict_set d k v) \<subseteq> insert (k, v) (set d)"
  by (induction d) (auto split: if_splits)

lemma dict_set_keys: "fst ` set (dict_set d k v) = insert k (fst ` set d)"
proof (induction d)
  case Nil
  then show ?case by simp
next
  case (Cons p d)
  obtain k' v' where p: "p = (k', v')" by (cases p)
  show ?case
  proof (cases "k' = k")
    case True
    then show ?thesis by (simp add: p)
  next
    case False
    with Cons show ?thesis by (simp add: p insert_commute)
  qed
qed

lemma dict_set_distinct: "distinct (map fst d) \<Longrightarrow> distinct (map fst (dict_set d k v))"
proof (induction d)
  case Nil
  then show ?case by simp
next
  case (Cons p d)
  obtain k' v' where p: "p = (k', v')" by (cases p)
  from Cons have "distinct (map fst (dict_set d k v))" by simp
  moreover have "k' \<noteq> k \<Longrightarrow> k' \<notin> fst ` set d \<Longrightarrow> k' \<notin> fst ` set (dict_set d k v)"
    by (simp add: dict_set_keys)
  ultimately show ?case using Cons.prems by (auto simp: p)
qed

lemma foldl_dict_set_subset:
  "set (foldl (\<lambda>d (k, v). dict_set d k v) d ps) \<subseteq> set d \<union> set ps"
proof (induction ps arbitrary: d)
  case Nil
  then show ?case by simp
next
  case (Cons p ps)
  obtain k v where p: "p = (k, v)" by (cases p)
  from Cons [of "dict_set d k v"] dict_set_subset [of d k v] show ?case
    by (auto simp: p)
qed

lemma foldl_dict_set_keys:
  "fst ` set (foldl (\<lambda>d (k, v). dict_set d k v) d ps) = fst ` set d \<union> fst ` set ps"
proof (induction ps arbitrary: d)
  case Nil
  then show ?case by simp
next
  case (Cons p ps)
  obtain k v where p: "p = (k, v)" by (cases p)
  from Cons [of "dict_set d k v"] show ?case
    by (simp add: p dict_set_keys)
qed

lemma foldl_dict_set_distinct:
  "distinct (map fst d) \<Longrightarrow> distinct (map fst (foldl (\<lambda>d (k, v). dict_set d k v) d ps))"
proof (induction ps arbitrary: d)
  case Nil
  then show ?case by simp
next
  case (Cons p ps)
  obtain k v where p: "p = (k, v)" by (cases p)
  from Cons.IH [of "dict_set d k v"] Cons.prems show ?case
    by (simp add: p dict_set_distinct)
qed

lemma py_dict_subset: "set (py_dict ps) \<subseteq> set ps"
  using foldl_dict_set_subset [of "[]" ps] by (simp add: py_dict_def)

lemma py_dict_keys: "fst ` set (py_dict ps) = fst ` set ps"
  using foldl_dict_set_keys [of "[]" ps] by (simp add: py_dict_def)

lemma py_dict_distinct: "distinct (map fst (py_dict ps))"
  using foldl_dict_set_distinct [of "[]" ps] by (simp add: py_dict_def)

lemma EntitySet_entry: "(k, v) \<in> set (EntitySet nick xs) \<Longrightarrow> v \<in> set xs \<and> k = nick v"
  using py_dict_subset [of "map (\<lambda>e. (nick e, e)) xs"] by (auto simp: EntitySet_def)

lemma EntitySet_keys: "fst ` set (EntitySet nick xs) = nick ` set xs"
  by (simp add: EntitySet_def py_dict_keys image_image)

lemma EntitySet_distinct: "distinct (map fst (EntitySet nick xs))"
  by (simp add: EntitySet_def py_dict_distinct)

lemma entities_subset: "set (entities (EntitySet nick xs)) \<subseteq> set xs"
  by (auto simp: entities_def dest: EntitySet_entry)

lemma EntitySet_lookup_Some:
  "map_of (EntitySet nick xs) n = Some r \<Longrightarrow> r \<in> set xs \<and> nick r = n"
  by (auto dest!: map_of_SomeD EntitySet_entry)

lemma EntitySet_lookup_None: "map_of (EntitySet nick xs) n = None \<longleftrightarrow> n \<notin> nick ` set xs"
  by (simp add: map_of_eq_None_iff EntitySet_keys)

lemma entities_nick: "map nick (entities (EntitySet nick xs)) = map fst (EntitySet nick xs)"
  by (auto simp: entities_def dest: EntitySet_entry)

lemma entities_distinct: "distinct (entities (EntitySet nick xs))"
  using EntitySet_distinct [of nick xs] entities_nick [of nick xs]
  by (metis distinct_map)

lemma entities_set:
  assumes "inj_on nick (set xs)"
  shows "set (entities (EntitySet nick xs)) = set xs"
proof
  show "set (entities (EntitySet nick xs)) \<subseteq> set xs" by (rule entities_subset)
  show "set xs \<subseteq> set (entities (EntitySet nick xs))"
  proof
    fix x assume x: "x \<in> set xs"
    then have "nick x \<in> fst ` set (EntitySet nick xs)" by (simp add: EntitySet_keys)
    then obtain v where v: "(nick x, v) \<in> set (EntitySet nick xs)" by auto
    from EntitySet_entry [OF v] have "v \<in> set xs" "nick x = nick v" by auto
    with assms x have "v = x" by (auto dest: inj_onD)
    with v show "x \<in> set (entities (EntitySet nick xs))"
      by (force simp: entities_def)
  qed
qed

section \<open>Properties of the relationship queries\<close>

subsection \<open>\<^verbatim>\<open>Base.owner\<close> and \<^verbatim>\<open>Faction.bases\<close>\<close>

lemma unique_none: "\<forall>s \<in> set (entities es). \<not> p s \<Longrightarrow> unique p es = None"
proof -
  assume "\<forall>s \<in> set (entities es). \<not> p s"
  then have "filter p (entities es) = []" by (simp add: filter_empty_conv)
  then show ?thesis by (simp add: unique_def)
qed

text \<open>
  Claim C9. A base whose system holds no \<^verbatim>\<open>BaseSolar\<close> for it and that has no mission
  base entry has the owner \<^verbatim>\<open>None\<close>, and nothing is raised. The faction registry is
  not consulted: the result is the same whatever the registry's factions are.
\<close>

theorem owner_of_virtual_base:
  assumes "Base_system' reg b = Inr sys"
    and "\<forall>s \<in> set (entities (System_bases reg sys)). base s \<noteq> nickname b"
    and "Base_mbase reg b = None"
  shows "Base_has_solar reg b = Inr False
         \<and> Base_owner reg b = Inr None
         \<and> (\<forall>fs. Base_owner (reg\<lparr>all_factions := fs\<rparr>) b = Inr None)"
proof -
  have own: "Base_owner r b = Inr None \<and> Base_has_solar r b = Inr False"
    if "Base_system' r b = Inr sys"
      and "\<forall>s \<in> set (entities (System_bases r sys)). base s \<noteq> nickname b"
      and "Base_mbase r b = None" for r
  proof -
    from that(2) have "unique (\<lambda>s. base s = nickname b) (System_bases r sys) = None"
      by (intro unique_none) simp
    with that(1) have "Base_solar r b = Inr None" by (simp add: Base_solar_def)
    then have "Base_has_solar r b = Inr False" by (simp add: Base_has_solar_def)
    with that(3) show ?thesis by (simp add: Base_owner_def)
  qed
  have same: "Base_system' (reg\<lparr>all_factions := fs\<rparr>) b = Base_system' reg b"
    "System_bases (reg\<lparr>all_factions := fs\<rparr>) sys = System_bases reg sys"
    "Base_mbase (reg\<lparr>all_factions := fs\<rparr>) b = Base_mbase reg b" for fs
    by (simp_all add: Base_system'_def get_systems_def System_bases_def contents_def
        Base_mbase_def get_mbases_def)
  from own [of reg] assms own [of "reg\<lparr>all_factions := fs\<rparr>" for fs] same
  show ?thesis by simp
qed

theorem owner_of_virtual_base_witness:
  "Base_system' dock_registry newark = Inr (mk_system ''li01'')
   \<and> list_all (\<lambda>s. base s \<noteq> nickname newark)
        (entities (System_bases dock_registry (mk_system ''li01'')))
   \<and> Base_mbase dock_registry newark = None
   \<and> Base_owner dock_registry newark = Inr None
   \<and> Base_owner (dock_registry\<lparr>all_factions := []\<rparr>) newark = Inr None"
proof -
  have h1: "Base_system' dock_registry newark = Inr (mk_system ''li01'')"
    by (simp add: Base_system'_def dock_registry_def get_systems_def EntitySet_def py_dict_def
        getitem_def newark_def mk_system_def)
  have h2: "\<forall>s \<in> set (entities (System_bases dock_registry (mk_system ''li01''))).
      base s \<noteq> nickname newark"
    by (simp add: System_bases_def contents_def dock_registry_def EntitySet_def py_dict_def
        of_type_BaseSolar_def entities_def mk_system_def mk_base_solar_def newark_def)
  have h3: "Base_mbase dock_registry newark = None"
    by (simp add: Base_mbase_def get_mbases_def dock_registry_def newark_def)
  from owner_of_virtual_base [OF h1 h2 h3] h1 h2 h3 show ?thesis
    by (simp only: list_all_iff simp_thms)
qed

lemma filter_raise_sound:
  "filter_raise p xs = Inr ys \<Longrightarrow> set ys \<subseteq> {x \<in> set xs. p x = Inr True}"
proof (induction xs arbitrary: ys)
  case Nil
  then show ?case by simp
next
  case (Cons x xs)
  then show ?case
    by (auto split: sum.splits if_splits)
qed

lemma owned_by_True:
  "owned_by reg f b = Inr True \<Longrightarrow>
   Base_has_solar reg b = Inr True \<and> (\<exists>s. Base_solar reg b = Inr (Some s) \<and> reputation s = nickname f)"
  by (auto simp: owned_by_def split: sum.splits bool.splits option.splits)

text \<open>
  Claim C10. Every base returned by \<^verbatim>\<open>Faction.bases\<close> has a solar, and the reputation
  field of that solar is the faction's nickname. A base without a solar is in no
  faction's result, whatever its mission data say.
\<close>

theorem faction_bases_have_solar:
  assumes "Faction_bases reg f = Inr bs"
  shows "(\<forall>b \<in> set (entities bs).
            Base_has_solar reg b = Inr True
            \<and> (\<exists>s. Base_solar reg b = Inr (Some s) \<and> reputation s = nickname f))
         \<and> (\<forall>v. Base_has_solar reg v = Inr False \<longrightarrow> v \<notin> set (entities bs))"
proof -
  from assms obtain ys where ys: "filter_raise (owned_by reg f) (entities (get_bases reg)) = Inr ys"
    and bs: "bs = EntitySet nickname ys"
    by (auto simp: Faction_bases_def split: sum.splits)
  have "owned_by reg f b = Inr True" if "b \<in> set (entities bs)" for b
    using that filter_raise_sound [OF ys] entities_subset [of nickname ys] by (auto simp: bs)
  then have a: "\<forall>b \<in> set (entities bs).
            Base_has_solar reg b = Inr True
            \<and> (\<exists>s. Base_solar reg b = Inr (Some s) \<and> reputation s = nickname f)"
    using owned_by_True by blast
  then show ?thesis by auto
qed

theorem faction_bases_have_solar_witness:
  "Faction_bases dock_registry li_n_grp = Inr [(''li01_01_base'', manhattan)]
   \<and> Base_has_solar dock_registry manhattan = Inr True
   \<and> Base_mbase dock_registry baltimore = Some \<lparr>local_faction = ''li_n_grp'', npcs = []\<rparr>
   \<and> Base_has_solar dock_registry baltimore = Inr False
   \<and> baltimore \<notin> set (entities [(''li01_01_base'', manhattan)])"
proof -
  have h: "Faction_bases dock_registry li_n_grp = Inr [(''li01_01_base'', manhattan)]"
    by (simp add: Faction_bases_def dock_registry_def get_bases_def EntitySet_def py_dict_def
        entities_def owned_by_def Base_has_solar_def Base_solar_def Base_system'_def
        get_systems_def getitem_def mk_system_def System_bases_def contents_def
        of_type_BaseSolar_def unique_def mk_base_solar_def manhattan_def newark_def
        baltimore_def rochester_def li_n_grp_def)
  have v: "Base_has_solar dock_registry baltimore = Inr False"
    by (simp add: dock_registry_def EntitySet_def py_dict_def
        entities_def Base_has_solar_def Base_solar_def Base_system'_def
        get_systems_def getitem_def mk_system_def System_bases_def contents_def
        of_type_BaseSolar_def unique_def mk_base_solar_def baltimore_def)
  have m: "Base_mbase dock_registry baltimore = Some \<lparr>local_faction = ''li_n_grp'', npcs = []\<rparr>"
    by (simp add: Base_mbase_def get_mbases_def dock_registry_def baltimore_def)
  from faction_bases_have_solar [OF h] h v m show ?thesis
    by (simp add: entities_def)
qed

subsection \<open>\<^verbatim>\<open>Faction.can_dock_at\<close>\<close>

lemma rep_sheet_entry:
  "map_of (Faction_rep_sheet reg f) ow = Some v \<Longrightarrow>
   \<exists>n. (v, n) \<in> set (rep f) \<and> map_of (get_factions reg) n = Some ow"
proof -
  assume "map_of (Faction_rep_sheet reg f) ow = Some v"
  then have "(ow, v) \<in> set (Faction_rep_sheet reg f)" by (rule map_of_SomeD)
  then have "(ow, v) \<in> set (concat (map (\<lambda>(r, n). case map_of (get_factions reg) n of
                                       None \<Rightarrow> []
                                     | Some f \<Rightarrow> [(f, r)]) (rep f)))"
    using py_dict_subset unfolding Faction_rep_sheet_def by blast
  then show ?thesis by (auto split: option.splits)
qed

text \<open>
  Claim C7. When the owner of the base resolves, \<^verbatim>\<open>can_dock_at\<close> returns true exactly
  when the faction's reputation sheet has a value for the owner and the value exceeds
  \<open>-0.65\<close>; with a value it returns the comparison, without one the lookup raises
  \<^verbatim>\<open>KeyError\<close>. When the owner is \<^verbatim>\<open>None\<close> the lookup raises \<^verbatim>\<open>KeyError\<close>, and an
  exception raised by \<^verbatim>\<open>owner()\<close> itself goes through.
\<close>

theorem can_dock_at_threshold:
  "(target_owner reg b = Inr (Some ow) \<longrightarrow>
      (Faction_can_dock_at reg f b = Inr True
         \<longleftrightarrow> (\<exists>v. map_of (Faction_rep_sheet reg f) ow = Some v \<and> v > - 0.65))
      \<and> (\<forall>v. map_of (Faction_rep_sheet reg f) ow = Some v
             \<longrightarrow> Faction_can_dock_at reg f b = Inr (v > - 0.65))
      \<and> (map_of (Faction_rep_sheet reg f) ow = None
             \<longrightarrow> Faction_can_dock_at reg f b = Inl KeyError))
   \<and> (target_owner reg b = Inr None \<longrightarrow> Faction_can_dock_at reg f b = Inl KeyError)
   \<and> (\<forall>e. target_owner reg b = Inl e \<longrightarrow> Faction_can_dock_at reg f b = Inl e)"
  by (auto simp: Faction_can_dock_at_def getitem_def NODOCK_REP_def Let_def
      split: option.splits)

theorem can_dock_at_threshold_witness:
  "target_owner dock_registry (AtBase manhattan) = Inr (Some li_n_grp)
   \<and> map_of (Faction_rep_sheet dock_registry fc_x_grp) li_n_grp = Some (- 0.3)
   \<and> Faction_can_dock_at dock_registry fc_x_grp (AtBase manhattan) = Inr True
   \<and> target_owner dock_registry (AtBase rochester) = Inr (Some fc_x_grp)
   \<and> map_of (Faction_rep_sheet dock_registry li_n_grp) fc_x_grp = Some (- 0.7)
   \<and> Faction_can_dock_at dock_registry li_n_grp (AtBase rochester) = Inr False
   \<and> target_owner dock_registry (AtBase newark) = Inr None
   \<and> Faction_can_dock_at dock_registry fc_x_grp (AtBase newark) = Inl KeyError"
proof -
  have o1: "target_owner dock_registry (AtBase manhattan) = Inr (Some li_n_grp)"
    by (simp add: Base_owner_def dock_registry_def EntitySet_def py_dict_def
        entities_def Base_has_solar_def Base_solar_def Base_system'_def BaseSolar_owner_def
        get_systems_def get_factions_def getitem_def mk_system_def System_bases_def contents_def
        of_type_BaseSolar_def unique_def mk_base_solar_def manhattan_def li_n_grp_def
        fc_x_grp_def)
  have o2: "target_owner dock_registry (AtBase rochester) = Inr (Some fc_x_grp)"
    by (simp add: Base_owner_def dock_registry_def EntitySet_def py_dict_def
        entities_def Base_has_solar_def Base_solar_def Base_system'_def BaseSolar_owner_def
        get_systems_def get_factions_def getitem_def mk_system_def System_bases_def contents_def
        of_type_BaseSolar_def unique_def mk_base_solar_def rochester_def li_n_grp_def
        fc_x_grp_def)
  have o3: "target_owner dock_registry (AtBase newark) = Inr None"
    by (simp add: Base_owner_def dock_registry_def EntitySet_def py_dict_def
        entities_def Base_has_solar_def Base_solar_def Base_system'_def Base_mbase_def
        get_mbases_def
        get_systems_def get_factions_def getitem_def mk_system_def System_bases_def contents_def
        of_type_BaseSolar_def unique_def mk_base_solar_def newark_def)
  have s1: "map_of (Faction_rep_sheet dock_registry fc_x_grp) li_n_grp = Some (- 0.3)"
    by (simp add: Faction_rep_sheet_def dock_registry_def get_factions_def EntitySet_def
        py_dict_def li_n_grp_def fc_x_grp_def)
  have s2: "map_of (Faction_rep_sheet dock_registry li_n_grp) fc_x_grp = Some (- 0.7)"
    by (simp add: Faction_rep_sheet_def dock_registry_def get_factions_def EntitySet_def
        py_dict_def li_n_grp_def fc_x_grp_def)
  from can_dock_at_threshold [of dock_registry "AtBase manhattan" li_n_grp fc_x_grp]
    can_dock_at_threshold [of dock_registry "AtBase rochester" fc_x_grp li_n_grp]
    can_dock_at_threshold [of dock_registry "AtBase newark" li_n_grp fc_x_grp]
    o1 o2 o3 s1 s2
  show ?thesis by simp
qed

subsection \<open>\<^verbatim>\<open>System.connections\<close>\<close>

lemma map_raise_all: "(\<And>x. x \<in> set xs \<Longrightarrow> f x = Inr (g x)) \<Longrightarrow> map_raise f xs = Inr (map g xs)"
  by (induction xs) auto

lemma map_raise_some_Inl: "x \<in> set xs \<Longrightarrow> f x = Inl e \<Longrightarrow> \<exists>e'. map_raise f xs = Inl e'"
  by (induction xs) (auto split: sum.splits)

lemma destination_unresolved:
  "goto j = Goto (n, a, c) \<Longrightarrow> n \<notin> nickname ` set (all_systems reg) \<Longrightarrow>
   Jump_destination_system reg j = Inl KeyError"
  using EntitySet_lookup_None [of nickname "all_systems reg" n]
  by (simp add: Jump_destination_system_def getitem_def get_systems_def)

text \<open>
  Claim C2 says that a jump whose destination does not resolve is left out of the
  mapping. The code raises instead: with one gate to a system that is not in the
  registry, \<^verbatim>\<open>connections\<close> ends in \<^verbatim>\<open>KeyError\<close>.
\<close>

theorem connections_unresolved_jump:
  "System_connections (jump_registry ''li03'') (mk_system ''li01'') = Inl KeyError
   \<and> entities (of_type_Jump (contents (jump_registry ''li03'') (mk_system ''li01'')))
       = [mk_jump ''li01_to_li02'' (mk_system ''li01'') ''li03'']
   \<and> map_of (get_systems (jump_registry ''li03'')) ''li03'' = None"
  by (simp add: System_connections_def jump_registry_def empty_registry_def contents_def
      EntitySet_def py_dict_def of_type_Jump_def entities_def Jump_destination_system_def
      mk_jump_def mk_system_def get_systems_def getitem_def)

lemma map_raise_Inl_only:
  "x \<in> set xs \<Longrightarrow> f x = Inl e \<Longrightarrow> \<forall>y \<in> set xs. \<forall>e'. f y = Inl e' \<longrightarrow> e' = k \<Longrightarrow>
   map_raise f xs = Inl k"
proof (induction xs)
  case Nil
  then show ?case by simp
next
  case (Cons a xs)
  show ?case
  proof (cases "f a")
    case (Inl e')
    with Cons.prems(3) have "e' = k" by simp
    with Inl show ?thesis by simp
  next
    case (Inr b)
    with Cons.prems(1,2) have "x \<in> set xs" by auto
    from Cons.IH [OF this Cons.prems(2)] Cons.prems(3) Inr show ?thesis by simp
  qed
qed

lemma destination_error_is_KeyError:
  "goto j \<noteq> Gotos [] \<Longrightarrow> Jump_destination_system reg j = Inl e \<Longrightarrow> e = KeyError"
  by (auto simp: Jump_destination_system_def getitem_def
      split: goto_field.splits option.splits if_splits)

text \<open>
  Claim C2 as amended. When the destination of every contained jump resolves,
  \<^verbatim>\<open>connections\<close> returns a mapping whose keys are the contained jumps, each mapped to
  its destination system. When the destination of some contained jump does not resolve,
  \<^verbatim>\<open>connections\<close> raises and returns no mapping; the exception is the \<^verbatim>\<open>KeyError\<close> of
  the lookup whenever no contained jump has an empty \<^verbatim>\<open>goto\<close> list (indexing an empty
  list raises \<^verbatim>\<open>IndexError\<close>, and that may come first).
\<close>

theorem connections_all_or_error:
  "((\<forall>j \<in> set (entities (of_type_Jump (contents reg sys))).
        \<exists>d. Jump_destination_system reg j = Inr d) \<longrightarrow>
      (\<exists>m. System_connections reg sys = Inr m
          \<and> fst ` set m = set (entities (of_type_Jump (contents reg sys)))
          \<and> (\<forall>j \<in> set (entities (of_type_Jump (contents reg sys))).
                \<exists>d. map_of m j = Some d \<and> Jump_destination_system reg j = Inr d)))
   \<and> ((\<exists>j \<in> set (entities (of_type_Jump (contents reg sys))).
        \<exists>e. Jump_destination_system reg j = Inl e) \<longrightarrow>
      (\<exists>e. System_connections reg sys = Inl e))
   \<and> ((\<forall>j \<in> set (entities (of_type_Jump (contents reg sys))). goto j \<noteq> Gotos [])
        \<and> (\<exists>j \<in> set (entities (of_type_Jump (contents reg sys))).
              \<exists>e. Jump_destination_system reg j = Inl e) \<longrightarrow>
      System_connections reg sys = Inl KeyError)"
proof (intro conjI impI)
  let ?js = "entities (of_type_Jump (contents reg sys))"
  let ?f = "\<lambda>c. case Jump_destination_system reg c of Inl e \<Rightarrow> Inl e | Inr d \<Rightarrow> Inr (c, d)"
  let ?g = "\<lambda>c. (c, projr (Jump_destination_system reg c))"
  {
    assume all: "\<forall>j \<in> set ?js. \<exists>d. Jump_destination_system reg j = Inr d"
    then have "\<And>x. x \<in> set ?js \<Longrightarrow> ?f x = Inr (?g x)" by auto
    then have mr: "map_raise ?f ?js = Inr (map ?g ?js)" by (rule map_raise_all)
    let ?m = "py_dict (map ?g ?js)"
    have c: "System_connections reg sys = Inr ?m"
      by (simp add: System_connections_def mr)
    have k: "fst ` set ?m = set ?js"
      by (simp add: py_dict_keys image_image)
    have v: "\<exists>d. map_of ?m j = Some d \<and> Jump_destination_system reg j = Inr d"
      if j: "j \<in> set ?js" for j
    proof -
      from j k obtain d where d: "(j, d) \<in> set ?m" by force
      then have "map_of ?m j = Some d"
        using py_dict_distinct by (metis map_of_is_SomeI)
      moreover from d py_dict_subset have "(j, d) \<in> set (map ?g ?js)" by blast
      then have "d = projr (Jump_destination_system reg j)" by auto
      with all j have "Jump_destination_system reg j = Inr d" by auto
      ultimately show ?thesis by blast
    qed
    from c k v
    show "\<exists>m. System_connections reg sys = Inr m
          \<and> fst ` set m = set ?js
          \<and> (\<forall>j \<in> set ?js. \<exists>d. map_of m j = Some d \<and> Jump_destination_system reg j = Inr d)"
      by blast
  }
  {
    assume "\<exists>j \<in> set ?js. \<exists>e. Jump_destination_system reg j = Inl e"
    then obtain j e where j: "j \<in> set ?js" and e: "?f j = Inl e" by auto
    from map_raise_some_Inl [of j ?js ?f e, OF j e]
    show "\<exists>e. System_connections reg sys = Inl e"
      by (auto simp: System_connections_def)
  }
  {
    assume a: "(\<forall>j \<in> set ?js. goto j \<noteq> Gotos [])
        \<and> (\<exists>j \<in> set ?js. \<exists>e. Jump_destination_system reg j = Inl e)"
    then obtain j e where j: "j \<in> set ?js" and e: "?f j = Inl e" by auto
    have only: "\<forall>y \<in> set ?js. \<forall>e'. ?f y = Inl e' \<longrightarrow> e' = KeyError"
    proof (intro ballI allI impI)
      fix y e' assume y: "y \<in> set ?js" and fy: "?f y = Inl e'"
      from fy have "Jump_destination_system reg y = Inl e'" by (auto split: sum.splits)
      moreover from a y have "goto y \<noteq> Gotos []" by simp
      ultimately show "e' = KeyError" by (rule destination_error_is_KeyError [rotated])
    qed
    from map_raise_Inl_only [of j ?js ?f e KeyError, OF j e only]
    show "System_connections reg sys = Inl KeyError"
      by (simp add: System_connections_def)
  }
qed

theorem connections_all_or_error_witness:
  "(\<exists>m. System_connections (jump_registry ''li02'') (mk_system ''li01'') = Inr m
        \<and> fst ` set m = {mk_jump ''li01_to_li02'' (mk_system ''li01'') ''li02''}
        \<and> map_of m (mk_jump ''li01_to_li02'' (mk_system ''li01'') ''li02'')
            = Some (mk_system ''li02''))
   \<and> goto (mk_jump ''li01_to_li02'' (mk_system ''li01'') ''li03'') \<noteq> Gotos []
   \<and> Jump_destination_system (jump_registry ''li03'')
        (mk_jump ''li01_to_li02'' (mk_system ''li01'') ''li03'') = Inl KeyError
   \<and> System_connections (jump_registry ''li03'') (mk_system ''li01'') = Inl KeyError"
proof -
  have js: "entities (of_type_Jump (contents (jump_registry dest) (mk_system ''li01'')))
       = [mk_jump ''li01_to_li02'' (mk_system ''li01'') dest]" for dest
    by (simp add: jump_registry_def empty_registry_def contents_def
      EntitySet_def py_dict_def of_type_Jump_def entities_def mk_jump_def mk_system_def)
  have d2: "Jump_destination_system (jump_registry ''li02'')
        (mk_jump ''li01_to_li02'' (mk_system ''li01'') ''li02'') = Inr (mk_system ''li02'')"
    by (simp add: jump_registry_def empty_registry_def EntitySet_def py_dict_def
        Jump_destination_system_def mk_jump_def mk_system_def get_systems_def getitem_def)
  have d3: "Jump_destination_system (jump_registry ''li03'')
        (mk_jump ''li01_to_li02'' (mk_system ''li01'') ''li03'') = Inl KeyError"
    by (simp add: jump_registry_def empty_registry_def EntitySet_def py_dict_def
        Jump_destination_system_def mk_jump_def mk_system_def get_systems_def getitem_def)
  have g3: "goto (mk_jump ''li01_to_li02'' (mk_system ''li01'') ''li03'') \<noteq> Gotos []"
    by (simp add: mk_jump_def)
  from connections_all_or_error [of "jump_registry ''li02''" "mk_system ''li01''"] d2
  have a: "\<exists>m. System_connections (jump_registry ''li02'') (mk_system ''li01'') = Inr m
        \<and> fst ` set m = {mk_jump ''li01_to_li02'' (mk_system ''li01'') ''li02''}
        \<and> map_of m (mk_jump ''li01_to_li02'' (mk_system ''li01'') ''li02'')
            = Some (mk_system ''li02'')"
    by (simp add: js)
  from connections_all_or_error [of "jump_registry ''li03''" "mk_system ''li01''"] d3 g3
  have b: "System_connections (jump_registry ''li03'') (mk_system ''li01'') = Inl KeyError"
    by (simp add: js)
  from a b d3 g3 show ?thesis by blast
qed

section \<open>Properties of \<^verbatim>\<open>System.lanes\<close>\<close>

lemma follow_lane_end: "next_ring r = None \<Longrightarrow> follow_lane rings r = Some []"
  by (subst follow_lane.simps) simp

lemma follow_lane_empty: "next_ring r = Some [] \<Longrightarrow> follow_lane rings r = Some []"
  by (subst follow_lane.simps) simp

lemma follow_lane_broken:
  "next_ring r = Some n \<Longrightarrow> map_of rings n = None \<Longrightarrow> follow_lane rings r = Some []"
  by (subst follow_lane.simps) simp

lemma follow_lane_step:
  "next_ring r = Some n \<Longrightarrow> n \<noteq> [] \<Longrightarrow> map_of rings n = Some r' \<Longrightarrow>
   follow_lane rings r = Option.bind (follow_lane rings r') (\<lambda>rest. Some (r' # rest))"
  by (subst follow_lane.simps) simp

lemma broken_chain_follow: "broken_chain rings r rs \<Longrightarrow> follow_lane rings r = Some rs"
proof (induction rs arbitrary: r)
  case Nil
  then show ?case by (auto simp: follow_lane_broken split: option.splits)
next
  case (Cons r' rs)
  then obtain n where n: "next_ring r = Some n" "n \<noteq> []" "map_of rings n = Some r'"
    and rest: "broken_chain rings r' rs"
    by (auto split: option.splits)
  from Cons.IH [OF rest] follow_lane_step [OF n] show ?case by simp
qed

lemma follow_lane_self_loop:
  assumes "next_ring r = Some n" "n \<noteq> []" "map_of rings n = Some r"
  shows "follow_lane rings r = None"
proof -
  have "rings' = rings \<longrightarrow> r' \<noteq> r" if "follow_lane rings' r' = Some y" for rings' r' y
  proof (rule follow_lane.raw_induct [OF _ that])
    fix f and rings' :: "trade_lane_ring EntitySet" and r' :: trade_lane_ring
      and y :: "trade_lane_ring list"
    assume IH: "\<And>rings' r' y. f rings' r' = Some y \<Longrightarrow> rings' = rings \<longrightarrow> r' \<noteq> r"
      and body: "(case next_ring r' of
          None \<Rightarrow> Some []
        | Some n \<Rightarrow>
            if n = [] then Some []
            else (case map_of rings' n of
                    None \<Rightarrow> Some []
                  | Some r \<Rightarrow> Option.bind (f rings' r) (\<lambda>rest. Some (r # rest)))) = Some y"
    show "rings' = rings \<longrightarrow> r' \<noteq> r"
    proof (intro impI notI)
      assume eq: "rings' = rings" "r' = r"
      with body assms obtain rest where "f rings r = Some rest"
        by (auto simp: bind_eq_Some_conv)
      with IH [of rings r rest] show False by simp
    qed
  qed
  then show ?thesis by (cases "follow_lane rings r") auto
qed

lemma lanes_loop_all:
  "\<forall>h \<in> set hs. follow_lane rings h \<noteq> None \<Longrightarrow>
   lanes_loop rings hs = Some (map (\<lambda>h. h # the (follow_lane rings h)) hs)"
  by (induction hs) auto

lemma lanes_loop_None:
  "h \<in> set hs \<Longrightarrow> follow_lane rings h = None \<Longrightarrow> lanes_loop rings hs = None"
  by (induction hs) (auto split: option.splits)

lemma lane_heads:
  "set (map fst (py_dict (map (\<lambda>r. (r, [] :: trade_lane_ring list)) hs))) = set hs"
  using py_dict_keys [of "map (\<lambda>r. (r, [] :: trade_lane_ring list)) hs"]
  by (simp add: image_image)


lemma EntitySet_lookup_inj:
  assumes "inj_on nick (set xs)" "r \<in> set xs"
  shows "map_of (EntitySet nick xs) (nick r) = Some r"
proof -
  from assms(2) have "map_of (EntitySet nick xs) (nick r) \<noteq> None"
    by (simp add: EntitySet_lookup_None)
  then obtain v where v: "map_of (EntitySet nick xs) (nick r) = Some v" by auto
  from EntitySet_lookup_Some [OF v] have "v \<in> set xs" "nick v = nick r" by auto
  with assms have "v = r" by (auto dest: inj_onD)
  with v show ?thesis by simp
qed

lemma distinct_singleton: "distinct zs \<Longrightarrow> set zs = {a} \<Longrightarrow> zs = [a]"
proof (cases zs)
  case Nil
  assume "set zs = {a}"
  with Nil show ?thesis by simp
next
  case (Cons z zs')
  assume d: "distinct zs" and s: "set zs = {a}"
  from s Cons have z: "z = a" by auto
  from d s Cons z have "zs' = []" by (cases zs') auto
  with Cons z show ?thesis by simp
qed

lemma filter_only:
  assumes "distinct ys" "set ys = {a, b, c}" "P a" "\<not> P b" "\<not> P c"
  shows "filter P ys = [a]"
proof -
  have "distinct (filter P ys)" using assms(1) by simp
  moreover have "set (filter P ys) = {a}" using assms by auto
  ultimately show ?thesis by (rule distinct_singleton)
qed

lemma of_type_ring_Nil: "of_type_TradeLaneRing [] = []"
  by (simp add: of_type_TradeLaneRing_def)

lemma of_type_ring_Cons:
  "of_type_TradeLaneRing ((k, c) # es) =
     (case c of TradeLaneRing r \<Rightarrow> [(k, r)] | _ \<Rightarrow> []) @ of_type_TradeLaneRing es"
  by (simp add: of_type_TradeLaneRing_def split: contained.splits)

lemma of_type_ring_keys: "fst ` set (of_type_TradeLaneRing es) \<subseteq> fst ` set es"
proof (induction es)
  case Nil
  then show ?case by (simp add: of_type_ring_Nil)
next
  case (Cons e es)
  obtain k c where e: "e = (k, c)" by (cases e)
  from Cons show ?case
    by (auto simp: e of_type_ring_Cons split: contained.splits)
qed

lemma of_type_ring_distinct:
  "distinct (map fst es) \<Longrightarrow> distinct (map fst (of_type_TradeLaneRing es))"
proof (induction es)
  case Nil
  then show ?case by (simp add: of_type_ring_Nil)
next
  case (Cons e es)
  obtain k c where e: "e = (k, c)" by (cases e)
  from Cons.prems e have "k \<notin> fst ` set es" by auto
  with of_type_ring_keys [of es] have "k \<notin> fst ` set (of_type_TradeLaneRing es)" by blast
  with Cons show ?case by (auto simp: e of_type_ring_Cons split: contained.splits)
qed

lemma of_type_ring_nick:
  "\<forall>(k, c) \<in> set es. k = contained_nickname c \<Longrightarrow>
   \<forall>(k, r) \<in> set (of_type_TradeLaneRing es). k = nickname r"
proof (induction es)
  case Nil
  then show ?case by (simp add: of_type_ring_Nil)
next
  case (Cons e es)
  obtain k c where e: "e = (k, c)" by (cases e)
  from Cons show ?case
    by (auto simp: e of_type_ring_Cons split: contained.splits)
qed

lemma ring_nicknames_distinct:
  "distinct (map nickname (entities (of_type_TradeLaneRing (contents reg sys))))"
proof -
  let ?es = "contents reg sys"
  have "\<forall>(k, c) \<in> set ?es. k = contained_nickname c"
    by (auto simp: contents_def dest: EntitySet_entry)
  then have "\<forall>(k, r) \<in> set (of_type_TradeLaneRing ?es). k = nickname r"
    by (rule of_type_ring_nick)
  then have "map nickname (entities (of_type_TradeLaneRing ?es)) = map fst (of_type_TradeLaneRing ?es)"
    by (auto simp: entities_def)
  moreover have "distinct (map fst (of_type_TradeLaneRing ?es))"
    by (rule of_type_ring_distinct) (simp add: contents_def EntitySet_distinct)
  ultimately show ?thesis by simp
qed

text \<open>
  Claim C5. A system whose trade lane rings are exactly \<open>R1\<close>, \<open>R2\<close> and \<open>R3\<close>, linked
  by \<^verbatim>\<open>next_ring\<close> and \<^verbatim>\<open>prev_ring\<close> as \<open>R1 \<rightarrow> R2 \<rightarrow> R3\<close> with nothing before \<open>R1\<close> and
  nothing after \<open>R3\<close>, has exactly one lane, \<open>[R1, R2, R3]\<close>, and \<^verbatim>\<open>lanes\<close> returns it.
  The rings may stand in any order among the other contents of the system. The nicknames
  that the links carry are non-empty (the code reads an empty \<^verbatim>\<open>next_ring\<close> as none).
\<close>

theorem lanes_three_rings:
  assumes rings: "set (entities (of_type_TradeLaneRing (contents reg sys))) = {R1, R2, R3}"
    and nonempty: "nickname R2 \<noteq> []" "nickname R3 \<noteq> []"
    and R1: "prev_ring R1 = None" "next_ring R1 = Some (nickname R2)"
    and R2: "prev_ring R2 = Some (nickname R1)" "next_ring R2 = Some (nickname R3)"
    and R3: "prev_ring R3 = Some (nickname R2)" "next_ring R3 = None"
  shows "System_lanes reg sys = Some [[R1, R2, R3]]"
proof -
  let ?xs = "entities (of_type_TradeLaneRing (contents reg sys))"
  let ?rings = "System_rings reg sys"
  have rs: "?rings = EntitySet nickname ?xs" by (simp add: System_rings_def)
  have inj: "inj_on nickname (set ?xs)"
    using ring_nicknames_distinct [of reg sys] by (simp add: distinct_map)
  have l2: "map_of ?rings (nickname R2) = Some R2"
    unfolding rs using inj rings by (intro EntitySet_lookup_inj) auto
  have l3: "map_of ?rings (nickname R3) = Some R3"
    unfolding rs using inj rings by (intro EntitySet_lookup_inj) auto
  have f3: "follow_lane ?rings R3 = Some []"
    using R3 by (simp add: follow_lane_end)
  have f2: "follow_lane ?rings R2 = Some [R3]"
    using follow_lane_step [OF R2(2) nonempty(2) l3] f3 by simp
  have f1: "follow_lane ?rings R1 = Some [R2, R3]"
    using follow_lane_step [OF R1(2) nonempty(1) l2] f2 by simp
  have "distinct (entities ?rings)" unfolding rs by (rule entities_distinct)
  moreover have "set (entities ?rings) = {R1, R2, R3}"
    unfolding rs using entities_set [OF inj] rings by simp
  ultimately have heads: "filter (\<lambda>r. prev_ring r = None) (entities ?rings) = [R1]"
    using R1 R2 R3 by (intro filter_only) auto
  show ?thesis
    by (simp add: System_lanes_def Let_def heads py_dict_def f1)
qed

theorem lanes_three_rings_witness:
  "set (entities (of_type_TradeLaneRing (contents lane_registry (mk_system ''li01'')))) =
     {mk_ring ''ring_1'' None (Some ''ring_2''),
      mk_ring ''ring_2'' (Some ''ring_1'') (Some ''ring_3''),
      mk_ring ''ring_3'' (Some ''ring_2'') None}
   \<and> System_lanes lane_registry (mk_system ''li01'') =
     Some [[mk_ring ''ring_1'' None (Some ''ring_2''),
            mk_ring ''ring_2'' (Some ''ring_1'') (Some ''ring_3''),
            mk_ring ''ring_3'' (Some ''ring_2'') None]]"
proof -
  have h: "set (entities (of_type_TradeLaneRing (contents lane_registry (mk_system ''li01'')))) =
     {mk_ring ''ring_1'' None (Some ''ring_2''),
      mk_ring ''ring_2'' (Some ''ring_1'') (Some ''ring_3''),
      mk_ring ''ring_3'' (Some ''ring_2'') None}"
    by (auto simp: lane_registry_def empty_registry_def contents_def EntitySet_def py_dict_def
        of_type_TradeLaneRing_def entities_def mk_system_def mk_jump_def mk_ring_def)
  from lanes_three_rings [OF h] h show ?thesis
    by (simp add: mk_ring_def)
qed

text \<open>
  Claim C6 says that for every system \<^verbatim>\<open>lanes\<close> truncates a chain whose link does not
  resolve. In a system that also holds a ring that starts a lane and names itself as its
  next ring, the loop for that ring never ends, and \<^verbatim>\<open>lanes\<close> returns nothing, although
  the chain from \<open>ring_1\<close> is broken after \<open>ring_2\<close>.
\<close>

theorem lanes_never_return_on_loop:
  "prev_ring (mk_ring ''ring_1'' None (Some ''ring_2'')) = None
   \<and> mk_ring ''ring_1'' None (Some ''ring_2'')
       \<in> set (entities (System_rings looping_registry (mk_system ''li01'')))
   \<and> broken_chain (System_rings looping_registry (mk_system ''li01''))
        (mk_ring ''ring_1'' None (Some ''ring_2''))
        [mk_ring ''ring_2'' (Some ''ring_1'') (Some ''ring_3'')]
   \<and> System_lanes looping_registry (mk_system ''li01'') = None"
proof -
  let ?R1 = "mk_ring ''ring_1'' None (Some ''ring_2'')"
  let ?R2 = "mk_ring ''ring_2'' (Some ''ring_1'') (Some ''ring_3'')"
  let ?R9 = "mk_ring ''ring_9'' None (Some ''ring_9'')"
  have rs: "System_rings looping_registry (mk_system ''li01'') =
      [(''ring_1'', ?R1), (''ring_2'', ?R2), (''ring_9'', ?R9)]"
    by (simp add: System_rings_def looping_registry_def empty_registry_def contents_def
        EntitySet_def py_dict_def of_type_TradeLaneRing_def entities_def mk_system_def mk_ring_def)
  have a: "prev_ring ?R1 = None" by (simp add: mk_ring_def)
  have b: "?R1 \<in> set (entities (System_rings looping_registry (mk_system ''li01'')))"
    by (simp add: rs entities_def)
  have c: "broken_chain (System_rings looping_registry (mk_system ''li01'')) ?R1 [?R2]"
    by (simp add: rs mk_ring_def)
  have "follow_lane [(''ring_1'', ?R1), (''ring_2'', ?R2), (''ring_9'', ?R9)] ?R9 = None"
    by (rule follow_lane_self_loop [where n = "''ring_9''"]) (simp_all add: mk_ring_def)
  moreover have "?R9 \<in> set [?R1, ?R9]" by simp
  ultimately have "lanes_loop [(''ring_1'', ?R1), (''ring_2'', ?R2), (''ring_9'', ?R9)] [?R1, ?R9] = None"
    by (rule lanes_loop_None [rotated])
  moreover have "map fst (py_dict (map (\<lambda>r. (r, [] :: trade_lane_ring list))
      (filter (\<lambda>r. prev_ring r = None) [?R1, ?R2, ?R9]))) = [?R1, ?R9]"
    by (simp add: py_dict_def mk_ring_def)
  ultimately have d: "System_lanes looping_registry (mk_system ''li01'') = None"
    by (simp add: System_lanes_def Let_def rs entities_def)
  from a b c d show ?thesis by blast
qed

text \<open>
  Claim C6 as amended. For a ring that starts a lane and whose chain reaches a ring whose
  \<^verbatim>\<open>next_ring\<close> names no ring of the system, the loop from that ring ends with the rings
  up to the last one that resolves. When the loop ends for every ring that starts a lane,
  \<^verbatim>\<open>lanes\<close> returns, and the truncated chain is one of its lanes. (\<^verbatim>\<open>lanes\<close> has no
  raising branch: a link that does not resolve is looked up with \<^verbatim>\<open>get\<close>.) In
  particular, when the \<^verbatim>\<open>next_ring\<close> of the ring that starts the lane is \<open>R2\<close> and the
  \<^verbatim>\<open>next_ring\<close> of \<open>R2\<close> names no ring of the system, the chain from that ring is
  itself followed by \<open>R2\<close>.
\<close>

theorem lanes_truncate_broken_chain:
  assumes "first_ring \<in> set (entities (System_rings reg sys))"
    and "prev_ring first_ring = None"
  shows "(broken_chain (System_rings reg sys) first_ring rs \<longrightarrow>
            follow_lane (System_rings reg sys) first_ring = Some rs
            \<and> ((\<forall>h \<in> set (entities (System_rings reg sys)).
                   prev_ring h = None \<longrightarrow> follow_lane (System_rings reg sys) h \<noteq> None) \<longrightarrow>
                (\<exists>lanes. System_lanes reg sys = Some lanes \<and> (first_ring # rs) \<in> set lanes)))
         \<and> (next_ring first_ring = Some (nickname R2) \<and> nickname R2 \<noteq> []
              \<and> map_of (System_rings reg sys) (nickname R2) = Some R2
              \<and> next_ring R2 = Some missing
              \<and> map_of (System_rings reg sys) missing = None \<longrightarrow>
            follow_lane (System_rings reg sys) first_ring = Some [R2]
            \<and> ((\<forall>h \<in> set (entities (System_rings reg sys)).
                   prev_ring h = None \<longrightarrow> follow_lane (System_rings reg sys) h \<noteq> None) \<longrightarrow>
                (\<exists>lanes. System_lanes reg sys = Some lanes \<and> [first_ring, R2] \<in> set lanes)))"
proof -
  let ?rings = "System_rings reg sys"
  let ?heads = "map fst (py_dict (map (\<lambda>r. (r, [] :: trade_lane_ring list))
      (filter (\<lambda>r. prev_ring r = None) (entities ?rings))))"
  have lane: "\<exists>lanes. System_lanes reg sys = Some lanes \<and> (first_ring # chain) \<in> set lanes"
    if f: "follow_lane ?rings first_ring = Some chain"
      and all: "\<forall>h \<in> set (entities ?rings). prev_ring h = None \<longrightarrow> follow_lane ?rings h \<noteq> None"
    for chain
  proof -
    have hs: "set ?heads = set (filter (\<lambda>r. prev_ring r = None) (entities ?rings))"
      by (rule lane_heads)
    with all have "\<forall>h \<in> set ?heads. follow_lane ?rings h \<noteq> None" by auto
    then have "lanes_loop ?rings ?heads = Some (map (\<lambda>h. h # the (follow_lane ?rings h)) ?heads)"
      by (rule lanes_loop_all)
    then have l: "System_lanes reg sys = Some (map (\<lambda>h. h # the (follow_lane ?rings h)) ?heads)"
      by (simp add: System_lanes_def Let_def)
    from assms hs have "first_ring \<in> set ?heads" by simp
    then have "first_ring # the (follow_lane ?rings first_ring)
        \<in> set (map (\<lambda>h. h # the (follow_lane ?rings h)) ?heads)"
      by force
    with f l show ?thesis by simp
  qed
  have general: "follow_lane ?rings first_ring = Some rs" if "broken_chain ?rings first_ring rs"
    using that by (rule broken_chain_follow)
  have particular: "follow_lane ?rings first_ring = Some [R2]"
    if "next_ring first_ring = Some (nickname R2)" "nickname R2 \<noteq> []"
      "map_of ?rings (nickname R2) = Some R2" "next_ring R2 = Some missing"
      "map_of ?rings missing = None"
  proof -
    from that(4,5) have "follow_lane ?rings R2 = Some []" by (rule follow_lane_broken)
    with follow_lane_step [OF that(1,2,3)] show ?thesis by simp
  qed
  from general particular lane show ?thesis by blast
qed

theorem lanes_truncate_broken_chain_witness:
  "broken_chain (System_rings broken_registry (mk_system ''li01''))
        (mk_ring ''ring_1'' None (Some ''ring_2''))
        [mk_ring ''ring_2'' (Some ''ring_1'') (Some ''ring_3'')]
   \<and> map_of (System_rings broken_registry (mk_system ''li01'')) ''ring_3'' = None
   \<and> follow_lane (System_rings broken_registry (mk_system ''li01''))
        (mk_ring ''ring_1'' None (Some ''ring_2''))
       = Some [mk_ring ''ring_2'' (Some ''ring_1'') (Some ''ring_3'')]
   \<and> System_lanes broken_registry (mk_system ''li01'') =
       Some [[mk_ring ''ring_1'' None (Some ''ring_2''),
              mk_ring ''ring_2'' (Some ''ring_1'') (Some ''ring_3'')]]"
proof -
  let ?R1 = "mk_ring ''ring_1'' None (Some ''ring_2'')"
  let ?R2 = "mk_ring ''ring_2'' (Some ''ring_1'') (Some ''ring_3'')"
  let ?rings = "System_rings broken_registry (mk_system ''li01'')"
  have rs: "?rings = [(''ring_1'', ?R1), (''ring_2'', ?R2)]"
    by (simp add: System_rings_def broken_registry_def empty_registry_def contents_def
        EntitySet_def py_dict_def of_type_TradeLaneRing_def entities_def mk_system_def mk_ring_def)
  have h1: "?R1 \<in> set (entities ?rings)" by (simp add: rs entities_def)
  have h2: "prev_ring ?R1 = None" by (simp add: mk_ring_def)
  have h3: "broken_chain ?rings ?R1 [?R2]" by (simp add: rs mk_ring_def)
  have p1: "next_ring ?R1 = Some (nickname ?R2)" "nickname ?R2 \<noteq> []"
    "next_ring ?R2 = Some ''ring_3''"
    by (simp_all add: mk_ring_def)
  have p2: "map_of ?rings (nickname ?R2) = Some ?R2" by (simp add: rs mk_ring_def)
  have p3: "map_of ?rings ''ring_3'' = None" by (simp add: rs)
  from lanes_truncate_broken_chain [OF h1 h2, of "[?R2]" ?R2 "''ring_3''"] h3 p1 p2 p3
  have f: "follow_lane ?rings ?R1 = Some [?R2]" by blast
  have ends: "\<forall>h \<in> set (entities ?rings). prev_ring h = None \<longrightarrow> follow_lane ?rings h \<noteq> None"
    using f by (simp add: rs entities_def mk_ring_def)
  from lanes_truncate_broken_chain [OF h1 h2, of "[?R2]" ?R2 "''ring_3''"] h3 ends
  obtain lanes where l: "System_lanes broken_registry (mk_system ''li01'') = Some lanes"
    and m: "[?R1, ?R2] \<in> set lanes" by blast
  have heads: "map fst (py_dict (map (\<lambda>r. (r, [] :: trade_lane_ring list))
      (filter (\<lambda>r. prev_ring r = None) (entities ?rings)))) = [?R1]"
    by (simp add: rs entities_def py_dict_def mk_ring_def)
  have "System_lanes broken_registry (mk_system ''li01'') = Some [[?R1, ?R2]]"
    by (simp add: System_lanes_def Let_def heads f)
  with h3 f p3 show ?thesis by simp
qed

end
